theory Spec2Isabelle
  imports Complex_Main "HOL-Library.Word" "HOL-Library.Sublist"
begin

chapter \<open>DAPHNE: the aggregation kernel AggAll and the MPI helper of the distributed worker\<close>

text \<open>
  The development follows two source files:
  \<^item> \<^verbatim>\<open>src/runtime/local/kernels/AggAll.h\<close>: full aggregation of a matrix to a scalar,
    for dense and for CSR storage;
  \<^item> \<^verbatim>\<open>src/runtime/distributed/worker/MPIHelper.h\<close>: the binary task codec, the parser of
    acknowledgement texts and the tagged point-to-point distribution.

  C++ \<^verbatim>\<open>size_t\<close> is a 64-bit unsigned integer. Counts and offsets that are only compared
  and incremented are natural numbers; where the source multiplies or converts them, the
  wrap-around is written out.
\<close>

definition size_t_mul :: "nat \<Rightarrow> nat \<Rightarrow> nat" where
  "size_t_mul a b = (a * b) mod 2 ^ 64"

section \<open>AggAll.h\<close>

subsection \<open>Op-codes\<close>

text \<open>
  Modelled from the spec: \<^verbatim>\<open>AggOpCode.h\<close> and \<^verbatim>\<open>EwBinarySca.h\<close> are included by
  \<^verbatim>\<open>AggAll.h\<close> but are not among the sources. The spec gives the aggregation op-codes as
  the pure binary reductions (sum, product, minimum, maximum) and the derived op-codes
  (mean, standard deviation); the comment \<^verbatim>\<open>The op-code is either MEAN or STDDEV\<close> in both
  \<^verbatim>\<open>apply\<close> functions agrees. The constructors carry a suffix because \<^verbatim>\<open>SUM\<close>,
  \<^verbatim>\<open>PROD\<close>, \<^verbatim>\<open>MIN\<close> and \<^verbatim>\<open>MAX\<close> are binder syntax of HOL.
\<close>

datatype AggOpCode = SUM_Agg | PROD_Agg | MIN_Agg | MAX_Agg | MEAN_Agg | STDDEV_Agg

datatype BinaryOpCode = ADD_Bin | MUL_Bin | MIN_Bin | MAX_Bin

text \<open>
  Modelled from the spec: \<^verbatim>\<open>AggOpCodeUtils::isPureBinaryReduction\<close>.
\<close>

fun isPureBinaryReduction :: "AggOpCode \<Rightarrow> bool" where
  "isPureBinaryReduction SUM_Agg = True"
| "isPureBinaryReduction PROD_Agg = True"
| "isPureBinaryReduction MIN_Agg = True"
| "isPureBinaryReduction MAX_Agg = True"
| "isPureBinaryReduction MEAN_Agg = False"
| "isPureBinaryReduction STDDEV_Agg = False"

text \<open>
  Modelled from the spec: \<^verbatim>\<open>AggOpCodeUtils::getBinaryOpCode\<close>. Only a pure binary
  reduction carries a binary combining function; for a derived op-code there is none
  (\<open>None\<close>). The kernels ask for the binary op-code of a pure reduction or of SUM only;
  were there none, the model reports a \<^verbatim>\<open>std::runtime_error\<close>.
\<close>

fun getBinaryOpCode :: "AggOpCode \<Rightarrow> BinaryOpCode option" where
  "getBinaryOpCode SUM_Agg = Some ADD_Bin"
| "getBinaryOpCode PROD_Agg = Some MUL_Bin"
| "getBinaryOpCode MIN_Agg = Some MIN_Bin"
| "getBinaryOpCode MAX_Agg = Some MAX_Bin"
| "getBinaryOpCode MEAN_Agg = None"
| "getBinaryOpCode STDDEV_Agg = None"

text \<open>
  Modelled from the spec: \<^verbatim>\<open>AggOpCodeUtils::isSparseSafe\<close>. An op-code is sparse-safe
  when combining with an implicit zero does not change the result: true for the sum,
  false for minimum, maximum and product.
\<close>

fun isSparseSafe :: "AggOpCode \<Rightarrow> bool" where
  "isSparseSafe SUM_Agg = True"
| "isSparseSafe opCode = False"

subsection \<open>The value types\<close>

text \<open>
  The kernels are templates over the argument value type \<^verbatim>\<open>VTArg\<close> (\<open>'a\<close>) and the result
  value type \<^verbatim>\<open>VTRes\<close> (\<open>'v\<close>). What the kernels use of the two types is a parameter of the
  model:
  \<^item> \<open>cast\<close> is \<^verbatim>\<open>static_cast<VTRes>\<close>;
  \<^item> \<open>ewBinarySca\<close> is \<^verbatim>\<open>getEwBinaryScaFuncPtr<VTRes, VTRes, VTRes>\<close>;
  \<^item> \<open>getNeutral\<close> is \<^verbatim>\<open>AggOpCodeUtils::getNeutral<VTRes>\<close>;
  \<^item> \<open>zeroV\<close> is \<^verbatim>\<open>VTRes(0)\<close>, also the literal \<^verbatim>\<open>0\<close> passed to the binary function;
  \<^item> \<open>divSize\<close> is the division of a \<^verbatim>\<open>VTRes\<close> by a \<^verbatim>\<open>size_t\<close>.
\<close>

record ('a, 'v) ValueTypes =
  cast :: "'a \<Rightarrow> 'v"
  ewBinarySca :: "BinaryOpCode \<Rightarrow> 'v \<Rightarrow> 'v \<Rightarrow> 'v"
  getNeutral :: "AggOpCode \<Rightarrow> 'v"
  zeroV :: "'v"
  divSize :: "'v \<Rightarrow> nat \<Rightarrow> 'v"

text \<open>
  Modelled from the spec: an instance of the value types with exact arithmetic over an
  ordered field, for the worked examples. The neutral elements of minimum and maximum
  are the largest and the smallest value of the type (\<open>hi\<close> and \<open>lo\<close>).
\<close>

fun exactBinarySca :: "BinaryOpCode \<Rightarrow> 'v::linordered_field \<Rightarrow> 'v \<Rightarrow> 'v" where
  "exactBinarySca ADD_Bin x y = x + y"
| "exactBinarySca MUL_Bin x y = x * y"
| "exactBinarySca MIN_Bin x y = min x y"
| "exactBinarySca MAX_Bin x y = max x y"

fun exactNeutral :: "'v::linordered_field \<Rightarrow> 'v \<Rightarrow> AggOpCode \<Rightarrow> 'v" where
  "exactNeutral lo hi SUM_Agg = 0"
| "exactNeutral lo hi PROD_Agg = 1"
| "exactNeutral lo hi MIN_Agg = hi"
| "exactNeutral lo hi MAX_Agg = lo"
| "exactNeutral lo hi opCode = 0"

definition exactValues :: "'v::linordered_field \<Rightarrow> 'v \<Rightarrow> ('v, 'v) ValueTypes" where
  "exactValues lo hi =
     \<lparr>cast = (\<lambda>x. x), ewBinarySca = exactBinarySca, getNeutral = exactNeutral lo hi,
      zeroV = 0, divSize = (\<lambda>x n. x / of_nat n)\<rparr>"

subsection \<open>Matrices\<close>

text \<open>
  Modelled from the spec: the matrix classes are not among the sources; the kernels use
  their accessors only. Every matrix exposes its row count and its column count. A dense
  matrix also exposes the row stride (\<^verbatim>\<open>getRowSkip\<close>) and the array \<^verbatim>\<open>getValues()\<close> points
  to; a CSR matrix the number of stored non-zeros and the array \<^verbatim>\<open>getValues(0)\<close> points to.
\<close>

record Structure =
  getNumRows :: nat
  getNumCols :: nat

record 'a DenseMatrix = Structure +
  getRowSkip :: nat
  getValues :: "'a list"

record 'a CSRMatrix = Structure +
  getNumNonZeros :: nat
  getValues0 :: "'a list"

text \<open>
  A kernel either returns a value, throws \<^verbatim>\<open>std::runtime_error\<close> with a message, or reads
  an array element that does not exist (the source does not check; the model stops at the
  first such read and reports its index).
\<close>

datatype agg_error = runtime_error string | out_of_bounds_read nat

subsection \<open>The loops\<close>

text \<open>
  \<^verbatim>\<open>for (i = ...; i < n; i++) agg = func(agg, static_cast<VTRes>(values[base + i]))\<close>, as a
  recursion over the indices the loop visits.
\<close>

primrec aggLoop ::
  "('v \<Rightarrow> 'v \<Rightarrow> 'v) \<Rightarrow> ('a \<Rightarrow> 'v) \<Rightarrow> 'a list \<Rightarrow> nat \<Rightarrow> nat list \<Rightarrow> 'v \<Rightarrow> agg_error + 'v" where
  "aggLoop func cst vals base [] agg = Inr agg"
| "aggLoop func cst vals base (i # is) agg =
     (if base + i < length vals
      then aggLoop func cst vals base is (func agg (cst (vals ! (base + i))))
      else Inl (out_of_bounds_read (base + i)))"

text \<open>
  The outer loop of the dense kernel: the inner loop over the logical columns of a row,
  then \<^verbatim>\<open>valuesArg += arg->getRowSkip()\<close>.
\<close>

primrec denseLoop ::
  "('v \<Rightarrow> 'v \<Rightarrow> 'v) \<Rightarrow> ('a \<Rightarrow> 'v) \<Rightarrow> 'a DenseMatrix \<Rightarrow> nat \<Rightarrow> nat list \<Rightarrow> 'v \<Rightarrow> agg_error + 'v" where
  "denseLoop func cst arg valuesArg [] agg = Inr agg"
| "denseLoop func cst arg valuesArg (r # rs) agg =
     (case aggLoop func cst (getValues arg) valuesArg [0..<getNumCols arg] agg of
        Inl e \<Rightarrow> Inl e
      | Inr agg' \<Rightarrow> denseLoop func cst arg (valuesArg + getRowSkip arg) rs agg')"

subsection \<open>scalar <- DenseMatrix\<close>

definition apply_dense ::
  "('a, 'v) ValueTypes \<Rightarrow> AggOpCode \<Rightarrow> 'a DenseMatrix \<Rightarrow> agg_error + 'v" where
  "apply_dense vt opCode arg =
     (case (if isPureBinaryReduction opCode
            then map_option (\<lambda>b. (ewBinarySca vt b, getNeutral vt opCode)) (getBinaryOpCode opCode)
            else map_option (\<lambda>b. (ewBinarySca vt b, zeroV vt)) (getBinaryOpCode SUM_Agg)) of
        None \<Rightarrow> Inl (runtime_error ''unsupported AggOpCode'')
      | Some (func, agg0) \<Rightarrow>
          (case denseLoop func (cast vt) arg 0 [0..<getNumRows arg] agg0 of
             Inl e \<Rightarrow> Inl e
           | Inr agg \<Rightarrow>
               if isPureBinaryReduction opCode then Inr agg
               else if opCode = MEAN_Agg
               then Inr (divSize vt agg (size_t_mul (getNumCols arg) (getNumRows arg)))
               else Inl (runtime_error ''unsupported AggOpCode in AggAll for DenseMatrix'')))"

subsection \<open>scalar <- CSRMatrix\<close>

definition aggArray ::
  "('a \<Rightarrow> 'v) \<Rightarrow> 'v \<Rightarrow> 'a list \<Rightarrow> nat \<Rightarrow> nat \<Rightarrow> ('v \<Rightarrow> 'v \<Rightarrow> 'v) \<Rightarrow> bool \<Rightarrow> 'v \<Rightarrow> agg_error + 'v" where
  "aggArray cst zero vals numNonZeros numCells func isSparseSafeFlag neutral =
     (if numNonZeros \<noteq> 0 then
        (if 0 < length vals then
           (case aggLoop func cst vals 0 [1..<numNonZeros] (cst (vals ! 0)) of
              Inl e \<Rightarrow> Inl e
            | Inr agg \<Rightarrow>
                if \<not> isSparseSafeFlag \<and> numNonZeros < numCells
                then Inr (func agg zero)
                else Inr agg)
         else Inl (out_of_bounds_read 0))
      else Inr (func neutral zero))"

definition apply_csr ::
  "('a, 'v) ValueTypes \<Rightarrow> AggOpCode \<Rightarrow> 'a CSRMatrix \<Rightarrow> agg_error + 'v" where
  "apply_csr vt opCode arg =
     (if isPureBinaryReduction opCode then
        (case getBinaryOpCode opCode of
           None \<Rightarrow> Inl (runtime_error ''unsupported AggOpCode'')
         | Some b \<Rightarrow>
             aggArray (cast vt) (zeroV vt) (getValues0 arg) (getNumNonZeros arg)
               (size_t_mul (getNumRows arg) (getNumCols arg)) (ewBinarySca vt b)
               (isSparseSafe opCode) (getNeutral vt opCode))
      else
        (case getBinaryOpCode SUM_Agg of
           None \<Rightarrow> Inl (runtime_error ''unsupported AggOpCode'')
         | Some b \<Rightarrow>
             (case aggArray (cast vt) (zeroV vt) (getValues0 arg) (getNumNonZeros arg)
                     (size_t_mul (getNumRows arg) (getNumCols arg)) (ewBinarySca vt b)
                     True (zeroV vt) of
                Inl e \<Rightarrow> Inl e
              | Inr agg \<Rightarrow>
                  if opCode = MEAN_Agg
                  then Inr (divSize vt agg (size_t_mul (getNumRows arg) (getNumCols arg)))
                  else Inl (runtime_error ''unsupported AggOpCode in AggAll for CSRMatrix''))))"

text \<open>
  The arrays hold every element the kernels read: the dense array reaches to the last
  logical column of the last row, the CSR array holds the stored non-zeros.
\<close>

definition dense_in_bounds :: "'a DenseMatrix \<Rightarrow> bool" where
  "dense_in_bounds arg =
     (getNumRows arg = 0 \<or> getNumCols arg = 0
      \<or> (getNumRows arg - 1) * getRowSkip arg + getNumCols arg \<le> length (getValues arg))"

definition csr_in_bounds :: "'a CSRMatrix \<Rightarrow> bool" where
  "csr_in_bounds arg = (getNumNonZeros arg \<le> length (getValues0 arg))"

text \<open>The cells of a dense matrix in the order the kernel visits them.\<close>

definition dense_cells :: "'a DenseMatrix \<Rightarrow> 'a list" where
  "dense_cells arg =
     concat (map (\<lambda>r. take (getNumCols arg) (drop (r * getRowSkip arg) (getValues arg))) [0..<getNumRows arg])"

text \<open>The matrices of the worked examples.\<close>

definition example_dense :: "rat DenseMatrix" where
  "example_dense = \<lparr>getNumRows = 2, getNumCols = 3, getRowSkip = 3, getValues = [1, 2, 3, 4, 5, 6]\<rparr>"

text \<open>The same cells in rows of four, the last of each row being padding.\<close>

definition example_dense_padded :: "rat DenseMatrix" where
  "example_dense_padded =
     \<lparr>getNumRows = 2, getNumCols = 3, getRowSkip = 4, getValues = [1, 2, 3, 0, 4, 5, 6]\<rparr>"

definition example_csr :: "rat CSRMatrix" where
  "example_csr = \<lparr>getNumRows = 2, getNumCols = 5, getNumNonZeros = 3, getValues0 = [5, - 2, 5]\<rparr>"

definition example_csr_empty :: "rat CSRMatrix" where
  "example_csr_empty = \<lparr>getNumRows = 2, getNumCols = 2, getNumNonZeros = 0, getValues0 = []\<rparr>"

text \<open>A CSR matrix of 2 rows and \<open>2 ^ 63\<close> columns with one stored value.\<close>

definition wide_csr :: "rat CSRMatrix" where
  "wide_csr = \<lparr>getNumRows = 2, getNumCols = 2 ^ 63, getNumNonZeros = 1, getValues0 = [5]\<rparr>"

section \<open>MPIHelper.h\<close>

subsection \<open>Message tags and the calls of the transport\<close>

datatype TypesOfMessages =
  BROADCAST | DATASIZE | DATA | DATAACK | MLIRSIZE | MLIR | INPUTKEYS | OUTPUT | OUTPUTKEY
  | DETACH | OBJECTIDENTIFIERSIZE | OBJECTIDENTIFIER

text \<open>The values of the enumerators: \<^verbatim>\<open>BROADCAST=0\<close> and one more for each that follows.\<close>

fun enum_value :: "TypesOfMessages \<Rightarrow> int" where
  "enum_value BROADCAST = 0"
| "enum_value DATASIZE = 1"
| "enum_value DATA = 2"
| "enum_value DATAACK = 3"
| "enum_value MLIRSIZE = 4"
| "enum_value MLIR = 5"
| "enum_value INPUTKEYS = 6"
| "enum_value OUTPUT = 7"
| "enum_value OUTPUTKEY = 8"
| "enum_value DETACH = 9"
| "enum_value OBJECTIDENTIFIERSIZE = 10"
| "enum_value OBJECTIDENTIFIER = 11"

definition COORDINATOR :: int where
  "COORDINATOR = 0"

text \<open>
  \<^verbatim>\<open>MPI_Send\<close> is a primitive of the transport. The model records each call with its
  arguments, in the order of the calls: what the buffer argument points to (the \<^verbatim>\<open>int\<close>
  holding the length, or the bytes at \<^verbatim>\<open>data\<close>), the count, the datatype, the destination
  and the tag. The communicator is \<^verbatim>\<open>MPI_COMM_WORLD\<close> in every call.
\<close>

datatype MPI_Datatype = MPI_INT | MPI_UNSIGNED_CHAR | MPI_CHAR

datatype send_buffer = int_at int | bytes_at string

record MPI_Send_call =
  send_buf :: send_buffer
  send_count :: int
  send_type :: MPI_Datatype
  send_dest :: int
  send_tag :: int

definition MPI_Send ::
  "send_buffer \<Rightarrow> int \<Rightarrow> MPI_Datatype \<Rightarrow> int \<Rightarrow> int \<Rightarrow> MPI_Send_call list \<Rightarrow> MPI_Send_call list" where
  "MPI_Send b n t rank tg world =
     world @ [\<lparr>send_buf = b, send_count = n, send_type = t, send_dest = rank, send_tag = tg\<rparr>]"

text \<open>
  \<^verbatim>\<open>int message = messageLength;\<close> converts a \<^verbatim>\<open>size_t\<close> to a 32-bit \<^verbatim>\<open>int\<close>: the low 32 bits,
  read as two's complement.
\<close>

definition size_t_to_int :: "nat \<Rightarrow> int" where
  "size_t_to_int n = sint (word_of_nat n :: 32 word)"

definition distributeWithTag ::
  "TypesOfMessages \<Rightarrow> nat \<Rightarrow> string \<Rightarrow> int \<Rightarrow> MPI_Send_call list \<Rightarrow> MPI_Send_call list" where
  "distributeWithTag tg messageLength data rank world =
     (if rank = COORDINATOR then world
      else
        let message = size_t_to_int messageLength;
            (sizeTag, dataTag) =
              (case tg of
                 DATA \<Rightarrow> (enum_value DATASIZE, enum_value DATA)
               | MLIR \<Rightarrow> (enum_value MLIRSIZE, enum_value MLIR)
               | _ \<Rightarrow> (- 1, - 1));
            world1 = MPI_Send (int_at message) 1 MPI_INT rank sizeTag world
        in MPI_Send (bytes_at data) message MPI_UNSIGNED_CHAR rank dataTag world1)"

definition distributeData :: "nat \<Rightarrow> string \<Rightarrow> int \<Rightarrow> MPI_Send_call list \<Rightarrow> MPI_Send_call list" where
  "distributeData messageLength data rank world = distributeWithTag DATA messageLength data rank world"

definition distributeTask :: "nat \<Rightarrow> string \<Rightarrow> int \<Rightarrow> MPI_Send_call list \<Rightarrow> MPI_Send_call list" where
  "distributeTask messageLength data rank world = distributeWithTag MLIR messageLength data rank world"

text \<open>A payload of \<open>2 ^ 32 + 5\<close> bytes.\<close>

definition huge_payload :: string where
  "huge_payload = replicate (2 ^ 32 + 5) (CHR ''a'')"

subsection \<open>The descriptor of a stored object\<close>

text \<open>
  Modelled from the spec: \<^verbatim>\<open>WorkerImpl::StoredInfo\<close> is declared in \<^verbatim>\<open>WorkerImpl.h\<close>, which is
  not among the sources. The spec gives its fields: the identifier, a string, and the row
  and column counts, unsigned integers (\<^verbatim>\<open>size_t\<close>, 64 bits, as the \<^verbatim>\<open>%zu\<close> conversions and the
  wire layout say).
\<close>

record StoredInfo =
  "identifier" :: string
  numRows :: "64 word"
  numCols :: "64 word"

subsection \<open>constructStoredInfo\<close>

text \<open>
  \<^verbatim>\<open>getline(s_stream, substr, ',')\<close> extracts the characters before the next delimiter and
  discards the delimiter. When it reaches the end of the input instead, it sets
  \<^verbatim>\<open>eofbit\<close>, and the stream is no longer \<^verbatim>\<open>good()\<close>. The second component is the rest of
  the stream, \<open>None\<close> when the end was reached.
\<close>

definition getline :: "string \<Rightarrow> char \<Rightarrow> string \<times> string option" where
  "getline s delim =
     (takeWhile (\<lambda>c. c \<noteq> delim) s,
      case dropWhile (\<lambda>c. c \<noteq> delim) s of [] \<Rightarrow> None | d # rest \<Rightarrow> Some rest)"

text \<open>
  \<^verbatim>\<open>while (s_stream.good()) { getline(s_stream, substr, ','); results.push_back(substr); }\<close>
\<close>

function read_fields :: "string \<Rightarrow> string list" where
  "read_fields s =
     (case getline s (CHR '','') of
        (substr, None) \<Rightarrow> [substr]
      | (substr, Some rest) \<Rightarrow> substr # read_fields rest)"
  by pat_completeness auto
termination
proof (relation "measure length")
  show "wf (measure length)" by simp
next
  fix s :: string and x1 :: string and x2 :: "string option" and x2a :: string
  assume "(x1, x2) = getline s CHR '',''" and "x2 = Some x2a"
  then obtain d where "dropWhile (\<lambda>c. c \<noteq> CHR '','') s = d # x2a"
    by (auto simp: getline_def split: list.splits)
  then have "length (d # x2a) \<le> length s"
    by (metis length_dropWhile_le)
  then show "(x2a, s) \<in> measure length" by simp
qed

declare read_fields.simps [simp del]

text \<open>
  Modelled from the C standard: \<^verbatim>\<open>sscanf(str, "%zu", &field)\<close> reads the string up to its
  first null character, skips white space, accepts an optional sign and then the longest
  run of decimal digits. With no digit there the conversion fails and the field is not
  assigned (\<open>None\<close>). A minus sign negates the value in \<^verbatim>\<open>size_t\<close>. For a value beyond
  the range of \<^verbatim>\<open>size_t\<close> the standard leaves the behaviour open; the C library of the
  platform (glibc) stores the largest value, and so does the model.
\<close>

definition c_str :: "string \<Rightarrow> string" where
  "c_str s = takeWhile (\<lambda>c. c \<noteq> CHR 0x00) s"

definition isspace :: "char \<Rightarrow> bool" where
  "isspace c = (c \<in> set [CHR '' '', CHR 0x09, CHR 0x0A, CHR 0x0B, CHR 0x0C, CHR 0x0D])"

definition isdigit :: "char \<Rightarrow> bool" where
  "isdigit c = (c \<in> set ''0123456789'')"

definition digit_value :: "char \<Rightarrow> nat" where
  "digit_value c = of_char c - 48"

definition decimal_value :: "string \<Rightarrow> nat" where
  "decimal_value ds = foldl (\<lambda>n c. 10 * n + digit_value c) 0 ds"

definition sscanf_zu :: "string \<Rightarrow> 64 word option" where
  "sscanf_zu str =
     (let s1 = dropWhile isspace (c_str str);
          signed = (case s1 of [] \<Rightarrow> False | c # cs \<Rightarrow> c = CHR ''-'' \<or> c = CHR ''+'');
          negative = (case s1 of [] \<Rightarrow> False | c # cs \<Rightarrow> c = CHR ''-'');
          digits = takeWhile isdigit (if signed then tl s1 else s1)
      in if digits = [] then None
         else let n = decimal_value digits
              in Some (if 2 ^ 64 \<le> n then - 1
                       else if negative then - word_of_nat n else word_of_nat n))"

text \<open>\<^verbatim>\<open>results.at(n)\<close> throws \<^verbatim>\<open>std::out_of_range\<close> when there is no element \<open>n\<close>.\<close>

datatype parse_error = out_of_range nat

definition vector_at :: "'a list \<Rightarrow> nat \<Rightarrow> parse_error + 'a" where
  "vector_at xs n = (if n < length xs then Inr (xs ! n) else Inl (out_of_range n))"

text \<open>
  \<^verbatim>\<open>WorkerImpl::StoredInfo info;\<close> leaves the two counts without a value: \<open>rows0\<close> and
  \<open>cols0\<close> stand for whatever the fields hold then. The return values of \<^verbatim>\<open>sscanf\<close> are
  not looked at.
\<close>

definition constructStoredInfo :: "64 word \<Rightarrow> 64 word \<Rightarrow> string \<Rightarrow> parse_error + StoredInfo" where
  "constructStoredInfo rows0 cols0 input =
     (let info = \<lparr>identifier = '''', numRows = rows0, numCols = cols0\<rparr>;
          results = read_fields input
      in case vector_at results 0 of
           Inl e \<Rightarrow> Inl e
         | Inr field0 \<Rightarrow>
             let info = info\<lparr>identifier := field0\<rparr>
             in case vector_at results 1 of
                  Inl e \<Rightarrow> Inl e
                | Inr field1 \<Rightarrow>
                    let info = (case sscanf_zu field1 of
                                  None \<Rightarrow> info | Some v \<Rightarrow> info\<lparr>numRows := v\<rparr>)
                    in case vector_at results 2 of
                         Inl e \<Rightarrow> Inl e
                       | Inr field2 \<Rightarrow>
                           Inr (case sscanf_zu field2 of
                                  None \<Rightarrow> info | Some v \<Rightarrow> info\<lparr>numCols := v\<rparr>))"

text \<open>
  The number of commas of an input; the comma-delimited fields are one more.
\<close>

definition commas :: "string \<Rightarrow> nat" where
  "commas s = length (filter (\<lambda>c. c = CHR '','') s)"

subsection \<open>Task: the buffer and the platform\<close>

text \<open>
  What the codec takes from the platform and from headers that are not among the sources:
  \<^item> \<open>sizeof_StoredInfo\<close> is \<^verbatim>\<open>sizeof(StoredInfo)\<close>, the size of the C++ object (a
    \<^verbatim>\<open>std::string\<close> and two \<^verbatim>\<open>size_t\<close>), a constant that does not depend on the identifier;
  \<^item> \<open>max_size_string\<close>, \<open>max_size_inputs\<close> and \<open>max_size_buffer\<close> bound what
    \<^verbatim>\<open>resize\<close> and \<^verbatim>\<open>reserve\<close> accept for \<^verbatim>\<open>std::string\<close>, \<^verbatim>\<open>std::vector<StoredInfo>\<close> and
    \<^verbatim>\<open>std::vector<char>\<close>: beyond the bound they throw;
  \<^item> \<open>fresh_byte\<close> is the content of newly allocated storage, which C++ leaves
    indeterminate.
\<close>

record platform =
  sizeof_StoredInfo :: nat
  max_size_string :: nat
  max_size_inputs :: nat
  max_size_buffer :: nat
  fresh_byte :: "nat \<Rightarrow> char"

text \<open>
  A \<^verbatim>\<open>std::vector<char>\<close> is its allocated storage (the capacity is the length of
  \<open>storage\<close>) and its size. \<^verbatim>\<open>serialize\<close> calls \<^verbatim>\<open>reserve\<close>, which changes the capacity and
  not the size, and writes through \<^verbatim>\<open>buffer.begin()\<close>; \<^verbatim>\<open>deserialize\<close> reads through
  \<^verbatim>\<open>buffer.data()\<close> and \<^verbatim>\<open>buffer.begin()\<close>; neither looks at \<^verbatim>\<open>size()\<close>. So both work on the
  allocated storage, and an access is within the buffer when it is within the capacity.
  The source checks no access. The model stops at the first access that leaves the
  storage and reports it with its offset and length: \<open>read_past_end\<close> and
  \<open>write_past_end\<close> stand for an access the program performs, not for a rejection. What
  the program does after such an access is undefined, and the model says nothing about it.
  \<open>length_error\<close> is the exception of \<^verbatim>\<open>resize\<close> and \<^verbatim>\<open>reserve\<close>.
\<close>

record char_vector =
  vec_size :: nat
  storage :: string

datatype codec_error = length_error | read_past_end nat nat | write_past_end nat nat

definition then_do :: "'e + 'a \<Rightarrow> ('a \<Rightarrow> 'e + 'b) \<Rightarrow> 'e + 'b" where
  "then_do r f = (case r of Inl e \<Rightarrow> Inl e | Inr x \<Rightarrow> f x)"

text \<open>
  \<^verbatim>\<open>buffer.reserve(n)\<close>: nothing happens when the capacity is at least \<open>n\<close>; otherwise the
  storage is replaced by one of \<open>n\<close> bytes that keeps the elements (the first \<^verbatim>\<open>size()\<close>
  bytes).
\<close>

definition reserve :: "platform \<Rightarrow> nat \<Rightarrow> char_vector \<Rightarrow> codec_error + char_vector" where
  "reserve P n v =
     (if max_size_buffer P < n then Inl length_error
      else if n \<le> length (storage v) then Inr v
      else Inr (v\<lparr>storage := take (vec_size v) (storage v) @ map (fresh_byte P) [vec_size v..<n]\<rparr>))"

text \<open>\<^verbatim>\<open>std::copy(first, first + n, bufIdx)\<close> into the storage, and out of it.\<close>

definition write_bytes :: "string \<Rightarrow> nat \<Rightarrow> string \<Rightarrow> codec_error + string" where
  "write_bytes st pos bs =
     (if pos + length bs \<le> length st
      then Inr (take pos st @ bs @ drop (pos + length bs) st)
      else Inl (write_past_end pos (length bs)))"

definition read_bytes :: "string \<Rightarrow> nat \<Rightarrow> nat \<Rightarrow> codec_error + string" where
  "read_bytes st pos n =
     (if pos + n \<le> length st
      then Inr (take n (drop pos st))
      else Inl (read_past_end pos n))"

text \<open>
  The object representation of an unsigned integer: its bytes, the least significant
  first (the byte order of the platforms the code runs on; the codec copies the
  representation as it is). \<open>le_bytes 8 n\<close> are the eight bytes of the \<^verbatim>\<open>size_t\<close> that holds
  \<open>n mod 2 ^ 64\<close>.
\<close>

primrec le_bytes :: "nat \<Rightarrow> nat \<Rightarrow> string" where
  "le_bytes 0 n = []"
| "le_bytes (Suc k) n = char_of (n mod 256) # le_bytes k (n div 256)"

primrec le_value :: "string \<Rightarrow> nat" where
  "le_value [] = 0"
| "le_value (c # cs) = of_char c + 256 * le_value cs"

definition sizeof_size_t :: nat where
  "sizeof_size_t = 8"

definition sizeof_Header :: nat where
  "sizeof_Header = 16"

definition size_t_bytes :: "nat \<Rightarrow> string" where
  "size_t_bytes n = le_bytes sizeof_size_t n"

definition word64_bytes :: "64 word \<Rightarrow> string" where
  "word64_bytes w = le_bytes sizeof_size_t (unat w)"

subsection \<open>Task\<close>

record Task =
  mlir_code :: string
  inputs :: "StoredInfo list"

definition sizeInBytes :: "platform \<Rightarrow> Task \<Rightarrow> nat" where
  "sizeInBytes P t =
     (sizeof_Header + length (mlir_code t) + sizeof_StoredInfo P * length (inputs t)) mod 2 ^ 64"

text \<open>The loop of \<^verbatim>\<open>serialize\<close> over the inputs; the state is the storage and \<^verbatim>\<open>bufIdx\<close>.\<close>

primrec serialize_inputs :: "string \<Rightarrow> nat \<Rightarrow> StoredInfo list \<Rightarrow> codec_error + string \<times> nat" where
  "serialize_inputs st bufIdx [] = Inr (st, bufIdx)"
| "serialize_inputs st bufIdx (inp # rest) =
     (let strLen = length (identifier inp) in
      then_do (write_bytes st bufIdx (size_t_bytes strLen)) (\<lambda>st1.
      then_do (write_bytes st1 (bufIdx + sizeof_size_t) (identifier inp)) (\<lambda>st2.
      then_do (write_bytes st2 (bufIdx + sizeof_size_t + strLen) (word64_bytes (numRows inp))) (\<lambda>st3.
      then_do (write_bytes st3 (bufIdx + sizeof_size_t + strLen + sizeof_size_t)
                 (word64_bytes (numCols inp))) (\<lambda>st4.
      serialize_inputs st4 (bufIdx + sizeof_size_t + strLen + sizeof_size_t + sizeof_size_t) rest)))))"

text \<open>
  \<^verbatim>\<open>serialize\<close>, with the final value of \<^verbatim>\<open>bufIdx\<close>, the number of bytes written, beside the
  buffer.
\<close>

definition serialize_run :: "platform \<Rightarrow> Task \<Rightarrow> char_vector \<Rightarrow> codec_error + char_vector \<times> nat" where
  "serialize_run P t buffer =
     then_do (reserve P (sizeInBytes P t) buffer) (\<lambda>b.
     then_do (write_bytes (storage b) 0
                (size_t_bytes (length (mlir_code t)) @ size_t_bytes (length (inputs t)))) (\<lambda>st1.
     then_do (write_bytes st1 sizeof_Header (mlir_code t)) (\<lambda>st2.
     then_do (serialize_inputs st2 (sizeof_Header + length (mlir_code t)) (inputs t)) (\<lambda>(st3, bufIdx).
     Inr (b\<lparr>storage := st3\<rparr>, bufIdx)))))"

definition serialize :: "platform \<Rightarrow> Task \<Rightarrow> char_vector \<Rightarrow> codec_error + char_vector" where
  "serialize P t buffer = then_do (serialize_run P t buffer) (\<lambda>(b, bufIdx). Inr b)"

text \<open>
  The loop of \<^verbatim>\<open>deserialize\<close> over the \<open>num_inputs\<close> elements of the resized vector.
\<close>

primrec deserialize_inputs :: "platform \<Rightarrow> string \<Rightarrow> nat \<Rightarrow> nat \<Rightarrow> codec_error + StoredInfo list" where
  "deserialize_inputs P st bufIdx 0 = Inr []"
| "deserialize_inputs P st bufIdx (Suc k) =
     then_do (read_bytes st bufIdx sizeof_size_t) (\<lambda>lenBytes.
     let strLen = le_value lenBytes in
     if max_size_string P < strLen then Inl length_error
     else
       then_do (read_bytes st (bufIdx + sizeof_size_t) strLen) (\<lambda>ident.
       then_do (read_bytes st (bufIdx + sizeof_size_t + strLen) sizeof_size_t) (\<lambda>rowBytes.
       then_do (read_bytes st (bufIdx + sizeof_size_t + strLen + sizeof_size_t) sizeof_size_t) (\<lambda>colBytes.
       then_do (deserialize_inputs P st
                  (bufIdx + sizeof_size_t + strLen + sizeof_size_t + sizeof_size_t) k) (\<lambda>rest.
       Inr (\<lparr>identifier = ident, numRows = word_of_nat (le_value rowBytes),
              numCols = word_of_nat (le_value colBytes)\<rparr> # rest))))))"

text \<open>
  \<^verbatim>\<open>deserialize\<close> overwrites both members of the task it is called on, so the result does
  not depend on what the task held before.
\<close>

definition deserialize :: "platform \<Rightarrow> char_vector \<Rightarrow> codec_error + Task" where
  "deserialize P buffer =
     (let st = storage buffer in
      then_do (read_bytes st 0 sizeof_size_t) (\<lambda>codeLenBytes.
      then_do (read_bytes st sizeof_size_t sizeof_size_t) (\<lambda>numBytes.
      let mlir_code_len = le_value codeLenBytes;
          num_inputs = le_value numBytes
      in if max_size_string P < mlir_code_len then Inl length_error
         else
           then_do (read_bytes st sizeof_Header mlir_code_len) (\<lambda>code.
           if max_size_inputs P < num_inputs then Inl length_error
           else
             then_do (deserialize_inputs P st (sizeof_Header + mlir_code_len) num_inputs) (\<lambda>inps.
             Inr \<lparr>mlir_code = code, inputs = inps\<rparr>)))))"

text \<open>
  The wire layout as the spec gives it: the header with the code length and the number of
  inputs, the code bytes, and for each input the identifier length, the identifier bytes,
  the row count and the column count.
\<close>

definition wire_input :: "StoredInfo \<Rightarrow> string" where
  "wire_input inp =
     size_t_bytes (length (identifier inp)) @ identifier inp
     @ word64_bytes (numRows inp) @ word64_bytes (numCols inp)"

definition wire_layout :: "Task \<Rightarrow> string" where
  "wire_layout t =
     size_t_bytes (length (mlir_code t)) @ size_t_bytes (length (inputs t))
     @ mlir_code t @ concat (map wire_input (inputs t))"

text \<open>
  The sizes of a task are sizes of C++ containers: they are within the bounds of the
  platform, which are below \<open>2 ^ 64\<close>.
\<close>

definition platform_ok :: "platform \<Rightarrow> bool" where
  "platform_ok P =
     (max_size_string P < 2 ^ 64 \<and> max_size_inputs P < 2 ^ 64 \<and> max_size_buffer P < 2 ^ 64)"

definition task_ok :: "platform \<Rightarrow> Task \<Rightarrow> bool" where
  "task_ok P t =
     (length (mlir_code t) \<le> max_size_string P \<and> length (inputs t) \<le> max_size_inputs P
      \<and> list_all (\<lambda>inp. length (identifier inp) \<le> max_size_string P) (inputs t))"

text \<open>
  The examples: a 64-bit platform with the GNU C++ library, where a \<^verbatim>\<open>std::string\<close> takes
  32 bytes and \<^verbatim>\<open>StoredInfo\<close> 48; an empty vector; a task with a short and a task with a
  long identifier.
\<close>

definition example_platform :: platform where
  "example_platform =
     \<lparr>sizeof_StoredInfo = 48, max_size_string = 2 ^ 62 - 1, max_size_inputs = (2 ^ 63 - 1) div 48,
      max_size_buffer = 2 ^ 63 - 1, fresh_byte = (\<lambda>i. CHR 0x00)\<rparr>"

definition empty_vector :: char_vector where
  "empty_vector = \<lparr>vec_size = 0, storage = []\<rparr>"

definition example_task :: Task where
  "example_task =
     \<lparr>mlir_code = ''x'', inputs = [\<lparr>identifier = ''m1'', numRows = 10, numCols = 20\<rparr>]\<rparr>"

definition long_identifier_task :: Task where
  "long_identifier_task =
     \<lparr>mlir_code = ''x'',
      inputs = [\<lparr>identifier = ''matrix_of_the_thirtieth_worker'', numRows = 1, numCols = 1\<rparr>]\<rparr>"

text \<open>
  A read that starts within the storage and ends beyond its end.
\<close>

definition past_end :: "string \<Rightarrow> codec_error \<Rightarrow> bool" where
  "past_end st e = (\<exists>p n. e = read_past_end p n \<and> p \<le> length st \<and> length st < p + n)"

text \<open>
  A buffer of 16 bytes whose header declares five bytes of code and no input.
\<close>

definition short_buffer :: char_vector where
  "short_buffer = \<lparr>vec_size = 16, storage = size_t_bytes 5 @ size_t_bytes 0\<rparr>"

section \<open>Properties of AggAll.h\<close>

subsection \<open>The loops on arrays that hold every element read\<close>

lemma nth_range_take_drop:
  "base + n \<le> length vals \<Longrightarrow> map (\<lambda>i. vals ! (base + i)) [0..<n] = take n (drop base vals)"
  by (rule nth_equalityI) auto

lemma aggLoop_in_bounds:
  "\<forall>i\<in>set is. base + i < length vals \<Longrightarrow>
   aggLoop func cst vals base is agg = Inr (foldl func agg (map (\<lambda>i. cst (vals ! (base + i))) is))"
  by (induction "is" arbitrary: agg) auto

lemma aggLoop_row:
  assumes "n = 0 \<or> base + n \<le> length vals"
  shows "aggLoop func cst vals base [0..<n] agg = Inr (foldl func agg (map cst (take n (drop base vals))))"
proof (cases "n = 0")
  case True
  then show ?thesis by simp
next
  case False
  with assms have b: "base + n \<le> length vals" by simp
  then have "\<forall>i\<in>set [0..<n]. base + i < length vals" by auto
  then have "aggLoop func cst vals base [0..<n] agg
      = Inr (foldl func agg (map (\<lambda>i. cst (vals ! (base + i))) [0..<n]))"
    by (rule aggLoop_in_bounds)
  also have "map (\<lambda>i. cst (vals ! (base + i))) [0..<n] = map cst (map (\<lambda>i. vals ! (base + i)) [0..<n])"
    by simp
  also have "\<dots> = map cst (take n (drop base vals))"
    using b by (simp only: nth_range_take_drop)
  finally show ?thesis .
qed

lemma denseLoop_in_bounds:
  assumes "getNumCols arg = 0 \<or> (\<forall>k<length rs. off + k * getRowSkip arg + getNumCols arg \<le> length (getValues arg))"
  shows "denseLoop func cst arg off rs agg =
    Inr (foldl func agg (map cst (concat (map (\<lambda>k. take (getNumCols arg) (drop (off + k * getRowSkip arg) (getValues arg))) [0..<length rs]))))"
  using assms
proof (induction rs arbitrary: off agg)
  case Nil
  then show ?case by simp
next
  case (Cons r rs)
  have row: "getNumCols arg = 0 \<or> off + getNumCols arg \<le> length (getValues arg)"
    using Cons.prems by auto
  have rest: "getNumCols arg = 0 \<or> (\<forall>k<length rs. (off + getRowSkip arg) + k * getRowSkip arg + getNumCols arg \<le> length (getValues arg))"
  proof (cases "getNumCols arg = 0")
    case True
    then show ?thesis by simp
  next
    case False
    with Cons.prems have a: "\<forall>k<length (r # rs). off + k * getRowSkip arg + getNumCols arg \<le> length (getValues arg)"
      by simp
    have "\<forall>k<length rs. (off + getRowSkip arg) + k * getRowSkip arg + getNumCols arg \<le> length (getValues arg)"
    proof (intro allI impI)
      fix k assume "k < length rs"
      then have "Suc k < length (r # rs)" by simp
      with a have "off + Suc k * getRowSkip arg + getNumCols arg \<le> length (getValues arg)" by blast
      then show "(off + getRowSkip arg) + k * getRowSkip arg + getNumCols arg \<le> length (getValues arg)"
        by (simp add: algebra_simps)
    qed
    then show ?thesis by simp
  qed
  have idx: "[0..<length (r # rs)] = 0 # map Suc [0..<length rs]"
    by (simp add: upt_conv_Cons map_Suc_upt del: upt_Suc)
  show ?case
    by (simp only: denseLoop.simps aggLoop_row [OF row] sum.case Cons.IH [OF rest] idx)
       (simp add: comp_def algebra_simps)
qed


subsection \<open>scalar <- DenseMatrix\<close>

lemma dense_rows_in_bounds:
  assumes "dense_in_bounds arg"
  shows "getNumCols arg = 0 \<or> (\<forall>k<length [0..<getNumRows arg]. 0 + k * getRowSkip arg + getNumCols arg \<le> length (getValues arg))"
proof (cases "getNumCols arg = 0 \<or> getNumRows arg = 0")
  case True
  then show ?thesis by auto
next
  case False
  with assms have b: "(getNumRows arg - 1) * getRowSkip arg + getNumCols arg \<le> length (getValues arg)"
    by (simp add: dense_in_bounds_def)
  have "\<forall>k<getNumRows arg. k * getRowSkip arg + getNumCols arg \<le> length (getValues arg)"
  proof (intro allI impI)
    fix k assume "k < getNumRows arg"
    then have "k \<le> getNumRows arg - 1" by simp
    then have "k * getRowSkip arg \<le> (getNumRows arg - 1) * getRowSkip arg" by (rule mult_le_mono1)
    with b show "k * getRowSkip arg + getNumCols arg \<le> length (getValues arg)" by linarith
  qed
  then show ?thesis by simp
qed

lemma denseLoop_cells:
  assumes "dense_in_bounds arg"
  shows "denseLoop func cst arg 0 [0..<getNumRows arg] agg = Inr (foldl func agg (map cst (dense_cells arg)))"
  using denseLoop_in_bounds [OF dense_rows_in_bounds [OF assms], of func cst agg]
  by (simp add: dense_cells_def)

lemma upt_2: "[0..<2] = [0, 1]"
  by (simp add: upt_conv_Cons)

lemma upt_3: "[0..<3] = [0, 1, 2]"
  by (simp add: upt_conv_Cons)

lemma upt_1_3: "[Suc 0..<3] = [1, 2]"
  by (simp add: upt_conv_Cons)

lemma example_dense_mean: "apply_dense (exactValues lo hi) MEAN_Agg example_dense = Inr (7 / 2)"
  unfolding apply_dense_def example_dense_def exactValues_def size_t_mul_def
  by (simp add: upt_2 upt_3)

text \<open>
  Claim C7. Dense storage, op-code MEAN: the kernel visits the rows in order and in each row
  the logical columns, moving on by the row stride; it accumulates the cells with the binary
  function of SUM, starting from \<^verbatim>\<open>VTRes(0)\<close>, and divides the total by the number of cells,
  the product of columns and rows as \<^verbatim>\<open>size_t\<close> computes it (the product itself whenever it
  is below \<open>2 ^ 64\<close>). The 2 x 3 matrix with the values 1 to 6 has the mean 3.5.
\<close>

theorem dense_mean:
  "(dense_in_bounds arg \<longrightarrow>
      apply_dense vt MEAN_Agg arg =
        Inr (divSize vt (foldl (ewBinarySca vt ADD_Bin) (zeroV vt) (map (cast vt) (dense_cells arg)))
               (size_t_mul (getNumCols arg) (getNumRows arg))))
   \<and> getBinaryOpCode SUM_Agg = Some ADD_Bin
   \<and> apply_dense (exactValues lo hi) MEAN_Agg example_dense = Inr (7 / 2)"
proof (intro conjI impI)
  assume "dense_in_bounds arg"
  then show "apply_dense vt MEAN_Agg arg =
        Inr (divSize vt (foldl (ewBinarySca vt ADD_Bin) (zeroV vt) (map (cast vt) (dense_cells arg)))
               (size_t_mul (getNumCols arg) (getNumRows arg)))"
    by (simp add: apply_dense_def denseLoop_cells)
next
  show "getBinaryOpCode SUM_Agg = Some ADD_Bin" by simp
next
  show "apply_dense (exactValues lo hi) MEAN_Agg example_dense = Inr (7 / 2)"
    by (rule example_dense_mean)
qed

theorem dense_mean_witness:
  "dense_in_bounds example_dense_padded
   \<and> dense_cells example_dense_padded = [1, 2, 3, 4, 5, 6]
   \<and> apply_dense (exactValues (- 1000) 1000) MEAN_Agg example_dense_padded = Inr (7 / 2)"
proof -
  let ?vt = "exactValues (- 1000) 1000 :: (rat, rat) ValueTypes"
  have b: "dense_in_bounds example_dense_padded"
    by (simp add: dense_in_bounds_def example_dense_padded_def)
  have c: "dense_cells example_dense_padded = [1, 2, 3, 4, 5, 6]"
    by (simp add: dense_cells_def example_dense_padded_def upt_2)
  have n: "size_t_mul (getNumCols example_dense_padded) (getNumRows example_dense_padded) = 6"
    by (simp add: size_t_mul_def example_dense_padded_def)
  from dense_mean [of example_dense_padded ?vt "- 1000" 1000] b
  have "apply_dense ?vt MEAN_Agg example_dense_padded =
        Inr (divSize ?vt (foldl (ewBinarySca ?vt ADD_Bin) (zeroV ?vt) (map (cast ?vt) (dense_cells example_dense_padded)))
               (size_t_mul (getNumCols example_dense_padded) (getNumRows example_dense_padded)))"
    by blast
  then have "apply_dense ?vt MEAN_Agg example_dense_padded = Inr (7 / 2)"
    by (simp add: c n) (simp add: exactValues_def)
  with b c show ?thesis by blast
qed


subsection \<open>scalar <- CSRMatrix\<close>

lemma aggLoop_tail:
  assumes "0 < n" "n \<le> length vals"
  shows "aggLoop func cst vals 0 [Suc 0..<n] (cst (vals ! 0)) =
    Inr (foldl func (hd (map cst (take n vals))) (tl (map cst (take n vals))))"
proof -
  have "\<forall>i\<in>set [Suc 0..<n]. 0 + i < length vals" using assms by auto
  then have "aggLoop func cst vals 0 [Suc 0..<n] (cst (vals ! 0))
      = Inr (foldl func (cst (vals ! 0)) (map (\<lambda>i. cst (vals ! (0 + i))) [Suc 0..<n]))"
    by (rule aggLoop_in_bounds)
  moreover have "map cst (take n vals) = map (\<lambda>i. cst (vals ! i)) [0..<n]"
    using assms by (intro nth_equalityI) auto
  moreover have "[0..<n] = 0 # [Suc 0..<n]"
    using assms by (simp add: upt_conv_Cons)
  ultimately show ?thesis by simp
qed

lemma aggArray_nonzeros:
  assumes "0 < n" "n \<le> length vals"
  shows "aggArray cst zero vals n numCells func safe neutral =
    Inr (let agg = foldl func (hd (map cst (take n vals))) (tl (map cst (take n vals)))
         in if \<not> safe \<and> n < numCells then func agg zero else agg)"
proof -
  from assms have "vals \<noteq> []" by auto
  with assms show ?thesis
    by (simp add: aggArray_def aggLoop_tail Let_def)
qed

lemma example_csr_values:
  "apply_csr (exactValues lo hi) SUM_Agg example_csr = Inr 8
   \<and> apply_csr (exactValues lo hi) MAX_Agg example_csr = Inr 5
   \<and> apply_csr (exactValues lo hi) MIN_Agg example_csr = Inr (- 2)"
  unfolding apply_csr_def aggArray_def example_csr_def exactValues_def size_t_mul_def
  by (simp add: upt_1_3)

text \<open>
  The kernel passes the number of cells as the \<^verbatim>\<open>size_t\<close> product of rows and columns.
\<close>

lemma csr_pure_reduction_size_t:
  assumes "csr_in_bounds arg \<and> 0 < getNumNonZeros arg \<and> isPureBinaryReduction opCode
      \<and> getBinaryOpCode opCode = Some b"
  shows "apply_csr vt opCode arg =
        Inr (let stored = map (cast vt) (take (getNumNonZeros arg) (getValues0 arg));
                 agg = foldl (ewBinarySca vt b) (hd stored) (tl stored)
             in if \<not> isSparseSafe opCode
                   \<and> getNumNonZeros arg < size_t_mul (getNumRows arg) (getNumCols arg)
                then ewBinarySca vt b agg (zeroV vt) else agg)"
proof -
  from assms have "0 < getNumNonZeros arg" "getNumNonZeros arg \<le> length (getValues0 arg)"
    by (simp_all add: csr_in_bounds_def)
  then show ?thesis
    using assms by (simp add: apply_csr_def aggArray_nonzeros Let_def)
qed

text \<open>
  A CSR matrix with 2 rows and \<open>2 ^ 63\<close> columns has \<open>2 ^ 64\<close> cells, and the \<^verbatim>\<open>size_t\<close>
  product of its rows and columns is 0. With one stored value 5 and MIN, which is not
  sparse-safe, a combine with zero for the cells that are not stored gives 0; the kernel
  compares the one stored value with 0 cells, combines nothing and returns 5.
\<close>

theorem csr_cell_count_wraps_counterexample:
  "csr_in_bounds wide_csr
   \<and> getNumNonZeros wide_csr = 1
   \<and> getNumRows wide_csr * getNumCols wide_csr = 2 ^ 64
   \<and> isPureBinaryReduction MIN_Agg
   \<and> isSparseSafe MIN_Agg = False
   \<and> ewBinarySca (exactValues (- 1000) 1000) MIN_Bin 5 (zeroV (exactValues (- 1000) 1000)) = (0 :: rat)
   \<and> apply_csr (exactValues (- 1000) 1000) MIN_Agg wide_csr = Inr 5"
proof (intro conjI)
  show "apply_csr (exactValues (- 1000) 1000) MIN_Agg wide_csr = Inr 5"
    unfolding apply_csr_def aggArray_def wide_csr_def exactValues_def size_t_mul_def
    by simp
qed (simp_all add: csr_in_bounds_def wide_csr_def exactValues_def)

text \<open>
  Claim C2, as amended. CSR storage, at least one stored value, a number of cells (rows
  times columns) below \<open>2 ^ 64\<close>, a pure binary reduction: the result is the left fold of
  the binary function over the stored values, seeded with the first stored value (the
  neutral element is not used), followed by one more combine with zero exactly when the
  op-code is not sparse-safe and the number of stored values is below the number of cells.
  With 10 cells and the stored values 5, -2, 5: SUM gives 8, MAX gives 5, MIN gives -2.
\<close>

theorem csr_pure_reduction_fitting:
  "(csr_in_bounds arg \<and> 0 < getNumNonZeros arg \<and> getNumRows arg * getNumCols arg < 2 ^ 64
      \<and> isPureBinaryReduction opCode \<and> getBinaryOpCode opCode = Some b \<longrightarrow>
      apply_csr vt opCode arg =
        Inr (let stored = map (cast vt) (take (getNumNonZeros arg) (getValues0 arg));
                 agg = foldl (ewBinarySca vt b) (hd stored) (tl stored)
             in if \<not> isSparseSafe opCode
                   \<and> getNumNonZeros arg < getNumRows arg * getNumCols arg
                then ewBinarySca vt b agg (zeroV vt) else agg))
   \<and> apply_csr (exactValues lo hi) SUM_Agg example_csr = Inr 8
   \<and> apply_csr (exactValues lo hi) MAX_Agg example_csr = Inr 5
   \<and> apply_csr (exactValues lo hi) MIN_Agg example_csr = Inr (- 2)"
proof (intro conjI impI)
  assume a: "csr_in_bounds arg \<and> 0 < getNumNonZeros arg \<and> getNumRows arg * getNumCols arg < 2 ^ 64
      \<and> isPureBinaryReduction opCode \<and> getBinaryOpCode opCode = Some b"
  then have "size_t_mul (getNumRows arg) (getNumCols arg) = getNumRows arg * getNumCols arg"
    by (simp add: size_t_mul_def)
  with a csr_pure_reduction_size_t [of arg opCode b vt]
  show "apply_csr vt opCode arg =
        Inr (let stored = map (cast vt) (take (getNumNonZeros arg) (getValues0 arg));
                 agg = foldl (ewBinarySca vt b) (hd stored) (tl stored)
             in if \<not> isSparseSafe opCode
                   \<and> getNumNonZeros arg < getNumRows arg * getNumCols arg
                then ewBinarySca vt b agg (zeroV vt) else agg)"
    by simp
qed (simp_all add: example_csr_values)

theorem csr_pure_reduction_fitting_witness:
  "csr_in_bounds example_csr \<and> 0 < getNumNonZeros example_csr
   \<and> getNumRows example_csr * getNumCols example_csr = 10
   \<and> isPureBinaryReduction MIN_Agg \<and> getBinaryOpCode MIN_Agg = Some MIN_Bin
   \<and> apply_csr (exactValues (- 1000) 1000) MIN_Agg example_csr = Inr (min (min (min 5 (- 2)) 5) 0)
   \<and> apply_csr (exactValues (- 1000) 1000) SUM_Agg example_csr = Inr 8
   \<and> apply_csr (exactValues (- 1000) 1000) MAX_Agg example_csr = Inr 5"
proof -
  let ?vt = "exactValues (- 1000) 1000 :: (rat, rat) ValueTypes"
  have h: "csr_in_bounds example_csr \<and> 0 < getNumNonZeros example_csr
      \<and> getNumRows example_csr * getNumCols example_csr < 2 ^ 64
      \<and> isPureBinaryReduction MIN_Agg \<and> getBinaryOpCode MIN_Agg = Some MIN_Bin"
    by (simp add: csr_in_bounds_def example_csr_def)
  have c: "getNumRows example_csr * getNumCols example_csr = 10"
    by (simp add: example_csr_def)
  from csr_pure_reduction_fitting [of example_csr MIN_Agg MIN_Bin ?vt "- 1000" 1000] h
  have "apply_csr ?vt MIN_Agg example_csr =
        Inr (let stored = map (cast ?vt) (take (getNumNonZeros example_csr) (getValues0 example_csr));
                 agg = foldl (ewBinarySca ?vt MIN_Bin) (hd stored) (tl stored)
             in if \<not> isSparseSafe MIN_Agg
                   \<and> getNumNonZeros example_csr < getNumRows example_csr * getNumCols example_csr
                then ewBinarySca ?vt MIN_Bin agg (zeroV ?vt) else agg)"
    and e: "apply_csr ?vt SUM_Agg example_csr = Inr 8"
      "apply_csr ?vt MAX_Agg example_csr = Inr 5"
    by blast+
  then have "apply_csr ?vt MIN_Agg example_csr = Inr (min (min (min 5 (- 2)) 5) 0)"
    by (simp add: c) (simp add: example_csr_def exactValues_def)
  with h c e show ?thesis by blast
qed

text \<open>
  Claim C8. CSR storage, no stored value, a pure binary reduction: the result is the neutral
  element of the op-code combined once with zero. SUM over the all-zero matrix with 4 cells
  is 0.
\<close>

theorem csr_empty:
  "(getNumNonZeros arg = 0 \<and> isPureBinaryReduction opCode \<and> getBinaryOpCode opCode = Some b \<longrightarrow>
      apply_csr vt opCode arg = Inr (ewBinarySca vt b (getNeutral vt opCode) (zeroV vt)))
   \<and> apply_csr (exactValues lo hi) SUM_Agg example_csr_empty = Inr 0"
proof (intro conjI impI)
  show "apply_csr (exactValues lo hi) SUM_Agg example_csr_empty = Inr 0"
    unfolding apply_csr_def aggArray_def example_csr_empty_def exactValues_def by simp
qed (simp add: apply_csr_def aggArray_def)

theorem csr_empty_witness:
  "getNumNonZeros example_csr_empty = 0 \<and> isPureBinaryReduction MAX_Agg
   \<and> getBinaryOpCode MAX_Agg = Some MAX_Bin
   \<and> size_t_mul (getNumRows example_csr_empty) (getNumCols example_csr_empty) = 4
   \<and> apply_csr (exactValues (- 1000) 1000) MAX_Agg example_csr_empty = Inr (max (- 1000) 0)"
proof -
  have h: "getNumNonZeros example_csr_empty = 0 \<and> isPureBinaryReduction MAX_Agg
      \<and> getBinaryOpCode MAX_Agg = Some MAX_Bin"
    by (simp add: example_csr_empty_def)
  have c: "size_t_mul (getNumRows example_csr_empty) (getNumCols example_csr_empty) = 4"
    by (simp add: size_t_mul_def example_csr_empty_def)
  from csr_empty [of example_csr_empty MAX_Agg MAX_Bin "exactValues (- 1000) 1000" "- 1000" 1000] h
  have "apply_csr (exactValues (- 1000) 1000) MAX_Agg example_csr_empty
      = Inr (ewBinarySca (exactValues (- 1000) 1000) MAX_Bin (getNeutral (exactValues (- 1000) 1000) MAX_Agg) (zeroV (exactValues (- 1000) 1000)))"
    by blast
  then have "apply_csr (exactValues (- 1000) 1000) MAX_Agg example_csr_empty = Inr (max (- 1000) 0)"
    by (simp add: exactValues_def)
  with h c show ?thesis by blast
qed

text \<open>
  Claim C3. The op-code STDDEV: for a dense and for a CSR matrix the kernel throws
  \<^verbatim>\<open>std::runtime_error\<close> with the message \<^verbatim>\<open>unsupported AggOpCode in AggAll for ...\<close>; on no
  input at all does it return a number.
\<close>

theorem stddev_unsupported:
  "(dense_in_bounds d \<longrightarrow>
      apply_dense vt STDDEV_Agg d =
        Inl (runtime_error ''unsupported AggOpCode in AggAll for DenseMatrix''))
   \<and> (csr_in_bounds s \<longrightarrow>
      apply_csr vt' STDDEV_Agg s =
        Inl (runtime_error ''unsupported AggOpCode in AggAll for CSRMatrix''))
   \<and> isl (apply_dense vt STDDEV_Agg d) \<and> isl (apply_csr vt' STDDEV_Agg s)"
proof (intro conjI impI)
  assume "dense_in_bounds d"
  then show "apply_dense vt STDDEV_Agg d =
        Inl (runtime_error ''unsupported AggOpCode in AggAll for DenseMatrix'')"
    by (simp add: apply_dense_def denseLoop_cells)
next
  assume "csr_in_bounds s"
  then show "apply_csr vt' STDDEV_Agg s =
        Inl (runtime_error ''unsupported AggOpCode in AggAll for CSRMatrix'')"
    by (cases "getNumNonZeros s = 0")
       (simp_all add: apply_csr_def aggArray_nonzeros csr_in_bounds_def Let_def, simp add: aggArray_def)
next
  show "isl (apply_dense vt STDDEV_Agg d)"
    by (simp add: apply_dense_def split: sum.splits)
next
  show "isl (apply_csr vt' STDDEV_Agg s)"
    by (simp add: apply_csr_def split: sum.splits)
qed

theorem stddev_unsupported_witness:
  "dense_in_bounds example_dense \<and> csr_in_bounds example_csr
   \<and> apply_dense (exactValues (- 1000) 1000) STDDEV_Agg example_dense =
        Inl (runtime_error ''unsupported AggOpCode in AggAll for DenseMatrix'')
   \<and> apply_csr (exactValues (- 1000) 1000) STDDEV_Agg example_csr =
        Inl (runtime_error ''unsupported AggOpCode in AggAll for CSRMatrix'')"
proof -
  have h: "dense_in_bounds example_dense" "csr_in_bounds example_csr"
    by (simp_all add: dense_in_bounds_def example_dense_def csr_in_bounds_def example_csr_def)
  from stddev_unsupported [of example_dense "exactValues (- 1000) 1000" example_csr "exactValues (- 1000) 1000"] h
  show ?thesis by blast
qed


section \<open>Properties of MPIHelper.h\<close>

subsection \<open>distributeWithTag\<close>

lemma size_t_to_int_small:
  assumes "n < 2 ^ 31"
  shows "size_t_to_int n = int n"
proof -
  have "int n < 2 ^ 31" using assms by (metis of_nat_less_numeral_power_cancel_iff)
  moreover have "- (2 ^ 31) \<le> int n" by (rule order_trans [of _ 0]) simp_all
  ultimately have "signed_take_bit 31 (int n) = int n"
    by (rule signed_take_bit_int_eq_self [rotated])
  then show ?thesis
    unfolding size_t_to_int_def by (simp only: signed_of_nat) simp
qed

text \<open>
  The two sends, with the length as the conversion to \<^verbatim>\<open>int\<close> gives it.
\<close>

lemma distribute_two_messages_int:
  "(rank \<noteq> COORDINATOR \<longrightarrow>
      distributeData messageLength data rank world =
        world @ [\<lparr>send_buf = int_at (size_t_to_int messageLength), send_count = 1,
                   send_type = MPI_INT, send_dest = rank, send_tag = enum_value DATASIZE\<rparr>,
                 \<lparr>send_buf = bytes_at data, send_count = size_t_to_int messageLength,
                   send_type = MPI_UNSIGNED_CHAR, send_dest = rank, send_tag = enum_value DATA\<rparr>]
      \<and> distributeTask messageLength data rank world =
        world @ [\<lparr>send_buf = int_at (size_t_to_int messageLength), send_count = 1,
                   send_type = MPI_INT, send_dest = rank, send_tag = enum_value MLIRSIZE\<rparr>,
                 \<lparr>send_buf = bytes_at data, send_count = size_t_to_int messageLength,
                   send_type = MPI_UNSIGNED_CHAR, send_dest = rank, send_tag = enum_value MLIR\<rparr>])
   \<and> distributeData messageLength data COORDINATOR world = world
   \<and> distributeTask messageLength data COORDINATOR world = world
   \<and> distributeData messageLength data rank world = distributeWithTag DATA messageLength data rank world
   \<and> distributeTask messageLength data rank world = distributeWithTag MLIR messageLength data rank world
   \<and> (messageLength < 2 ^ 31 \<longrightarrow> size_t_to_int messageLength = int messageLength)"
  by (simp add: distributeData_def distributeTask_def distributeWithTag_def MPI_Send_def
      size_t_to_int_small Let_def)

lemma size_t_to_int_wrapped: "size_t_to_int 4294967301 = 5"
proof -
  have w: "(word_of_nat 4294967301 :: 32 word) = 5"
    by (simp add: word_eq_iff_unsigned [where ?'a = nat] unsigned_of_nat take_bit_eq_mod)
  show ?thesis
    unfolding size_t_to_int_def w by simp
qed

text \<open>
  A payload of \<open>2 ^ 32 + 5\<close> bytes: the conversion to \<^verbatim>\<open>int\<close> leaves 5, so the call announces
  the length 5 and sends 5 bytes of the payload.
\<close>

theorem distribute_length_truncated_counterexample:
  "length huge_payload = 2 ^ 32 + 5
   \<and> distributeData (2 ^ 32 + 5) huge_payload 1 [] =
        [\<lparr>send_buf = int_at 5, send_count = 1, send_type = MPI_INT, send_dest = 1, send_tag = 1\<rparr>,
         \<lparr>send_buf = bytes_at huge_payload, send_count = 5, send_type = MPI_UNSIGNED_CHAR,
           send_dest = 1, send_tag = 2\<rparr>]"
proof (intro conjI)
  show "length huge_payload = 2 ^ 32 + 5"
    unfolding huge_payload_def by (rule length_replicate)
  show "distributeData (2 ^ 32 + 5) huge_payload 1 [] =
        [\<lparr>send_buf = int_at 5, send_count = 1, send_type = MPI_INT, send_dest = 1, send_tag = 1\<rparr>,
         \<lparr>send_buf = bytes_at huge_payload, send_count = 5, send_type = MPI_UNSIGNED_CHAR,
           send_dest = 1, send_tag = 2\<rparr>]"
    by (simp add: distributeData_def distributeWithTag_def MPI_Send_def COORDINATOR_def
        size_t_to_int_wrapped Let_def)
qed

text \<open>
  Claim C9, as amended. For a payload of fewer than \<open>2 ^ 31\<close> bytes, the categories DATA
  and MLIR (the task code) and a destination other than the coordinator, the call performs
  exactly two sends to that destination, in this order: one \<^verbatim>\<open>int\<close>, the length of the
  payload, tagged DATASIZE or MLIRSIZE; then that many bytes at \<^verbatim>\<open>data\<close>, tagged DATA or
  MLIR. For the coordinator as destination it performs no send, whatever the length.
\<close>

theorem distribute_two_messages_fitting:
  "(rank \<noteq> COORDINATOR \<and> messageLength < 2 ^ 31 \<longrightarrow>
      distributeData messageLength data rank world =
        world @ [\<lparr>send_buf = int_at (int messageLength), send_count = 1,
                   send_type = MPI_INT, send_dest = rank, send_tag = enum_value DATASIZE\<rparr>,
                 \<lparr>send_buf = bytes_at data, send_count = int messageLength,
                   send_type = MPI_UNSIGNED_CHAR, send_dest = rank, send_tag = enum_value DATA\<rparr>]
      \<and> distributeTask messageLength data rank world =
        world @ [\<lparr>send_buf = int_at (int messageLength), send_count = 1,
                   send_type = MPI_INT, send_dest = rank, send_tag = enum_value MLIRSIZE\<rparr>,
                 \<lparr>send_buf = bytes_at data, send_count = int messageLength,
                   send_type = MPI_UNSIGNED_CHAR, send_dest = rank, send_tag = enum_value MLIR\<rparr>])
   \<and> distributeData messageLength data COORDINATOR world = world
   \<and> distributeTask messageLength data COORDINATOR world = world
   \<and> distributeData messageLength data rank world = distributeWithTag DATA messageLength data rank world
   \<and> distributeTask messageLength data rank world = distributeWithTag MLIR messageLength data rank world"
  by (simp add: distributeData_def distributeTask_def distributeWithTag_def MPI_Send_def
      size_t_to_int_small Let_def)

theorem distribute_two_messages_fitting_witness:
  "(3 :: int) \<noteq> COORDINATOR \<and> (5 :: nat) < 2 ^ 31
   \<and> distributeData 5 ''hello'' 3 [] =
        [\<lparr>send_buf = int_at 5, send_count = 1, send_type = MPI_INT, send_dest = 3, send_tag = 1\<rparr>,
         \<lparr>send_buf = bytes_at ''hello'', send_count = 5, send_type = MPI_UNSIGNED_CHAR,
           send_dest = 3, send_tag = 2\<rparr>]
   \<and> distributeTask 5 ''hello'' 3 [] =
        [\<lparr>send_buf = int_at 5, send_count = 1, send_type = MPI_INT, send_dest = 3, send_tag = 4\<rparr>,
         \<lparr>send_buf = bytes_at ''hello'', send_count = 5, send_type = MPI_UNSIGNED_CHAR,
           send_dest = 3, send_tag = 5\<rparr>]
   \<and> distributeData 5 ''hello'' 0 [] = []"
  using distribute_two_messages_fitting [of 3 5 "''hello''" "[]"]
    distribute_two_messages_fitting [of 0 5 "''hello''" "[]"]
  by (simp add: COORDINATOR_def)

text \<open>
  Claim C10. The switch of \<^verbatim>\<open>distributeWithTag\<close> has cases for DATA and MLIR only. For every
  other category and a destination other than the coordinator, the two sends both carry
  the tag -1, the initial value of \<^verbatim>\<open>sizeTag\<close> and \<^verbatim>\<open>dataTag\<close>; the tags are the pairs
  (DATASIZE, DATA) and (MLIRSIZE, MLIR) for the two categories with a case.
\<close>

theorem distribute_other_tags:
  "(rank \<noteq> COORDINATOR \<and> tg \<noteq> DATA \<and> tg \<noteq> MLIR \<longrightarrow>
      distributeWithTag tg messageLength data rank world =
        world @ [\<lparr>send_buf = int_at (size_t_to_int messageLength), send_count = 1,
                   send_type = MPI_INT, send_dest = rank, send_tag = - 1\<rparr>,
                 \<lparr>send_buf = bytes_at data, send_count = size_t_to_int messageLength,
                   send_type = MPI_UNSIGNED_CHAR, send_dest = rank, send_tag = - 1\<rparr>])
   \<and> (rank \<noteq> COORDINATOR \<longrightarrow>
        map send_tag (drop (length world) (distributeWithTag tg messageLength data rank world))
          = (if tg = DATA then [1, 2] else if tg = MLIR then [4, 5] else [- 1, - 1]))"
  by (cases tg) (simp_all add: distributeWithTag_def MPI_Send_def Let_def)

theorem distribute_other_tags_witness:
  "(3 :: int) \<noteq> COORDINATOR \<and> OUTPUT \<noteq> DATA \<and> OUTPUT \<noteq> MLIR
   \<and> distributeWithTag OUTPUT 5 ''hello'' 3 [] =
        [\<lparr>send_buf = int_at (size_t_to_int 5), send_count = 1, send_type = MPI_INT,
           send_dest = 3, send_tag = - 1\<rparr>,
         \<lparr>send_buf = bytes_at ''hello'', send_count = size_t_to_int 5,
           send_type = MPI_UNSIGNED_CHAR, send_dest = 3, send_tag = - 1\<rparr>]
   \<and> map send_tag (distributeWithTag DATAACK 5 ''hello'' 3 []) = [- 1, - 1]
   \<and> map send_tag (distributeWithTag BROADCAST 5 ''hello'' 3 []) = [- 1, - 1]"
  using distribute_other_tags [of 3 OUTPUT 5 "''hello''" "[]"]
    distribute_other_tags [of 3 DATAACK 5 "''hello''" "[]"]
    distribute_other_tags [of 3 BROADCAST 5 "''hello''" "[]"]
  by (simp add: COORDINATOR_def)


subsection \<open>constructStoredInfo\<close>

lemma read_fields_Nil: "read_fields [] = [[]]"
  by (subst read_fields.simps) (simp add: getline_def)

lemma read_fields_Cons:
  "read_fields (c # cs) =
     (if c = CHR '','' then [] # read_fields cs
      else (case read_fields cs of [] \<Rightarrow> [] | f # fs \<Rightarrow> (c # f) # fs))"
  by (subst read_fields.simps, subst (3) read_fields.simps)
     (simp add: getline_def split: list.splits option.splits)

lemma length_read_fields: "length (read_fields s) = Suc (commas s)"
  by (induction s) (auto simp: commas_def read_fields_Nil read_fields_Cons split: list.splits)

lemma read_fields_not_Nil: "read_fields s \<noteq> []"
  using length_read_fields [of s] by auto

lemma hd_read_fields: "read_fields s ! 0 = takeWhile (\<lambda>c. c \<noteq> CHR '','') s"
  by (subst read_fields.simps) (simp add: getline_def split: list.splits)

lemmas sscanf_zu_eval =
  sscanf_zu_def c_str_def isspace_def isdigit_def decimal_value_def digit_value_def

lemma construct_example:
  "constructStoredInfo rows0 cols0 ''m1,10,20'' = Inr \<lparr>identifier = ''m1'', numRows = 10, numCols = 20\<rparr>"
  unfolding constructStoredInfo_def vector_at_def sscanf_zu_eval
  by (simp add: read_fields_Nil read_fields_Cons)

lemma construct_few_fields:
  assumes "commas input < 2"
  shows "constructStoredInfo rows0 cols0 input = Inl (out_of_range (Suc (commas input)))"
proof (cases "commas input = 0")
  case True
  then show ?thesis
    by (simp add: constructStoredInfo_def vector_at_def length_read_fields Let_def
        read_fields_not_Nil)
next
  case False
  with assms have "commas input = 1" by simp
  then show ?thesis
    by (simp add: constructStoredInfo_def vector_at_def length_read_fields Let_def
        read_fields_not_Nil)
qed

lemma construct_three_fields:
  assumes "2 \<le> commas input"
  shows "\<exists>info. constructStoredInfo rows0 cols0 input = Inr info
           \<and> identifier info = takeWhile (\<lambda>c. c \<noteq> CHR '','') input"
  using assms
  by (simp add: constructStoredInfo_def vector_at_def length_read_fields Let_def hd_read_fields
      read_fields_not_Nil split: option.splits)

text \<open>
  A numeric field without digits raises no error: \<^verbatim>\<open>sscanf\<close> converts nothing, its return
  value is not looked at, and the parser returns a descriptor.
\<close>

theorem constructStoredInfo_unparsed_counterexample:
  "constructStoredInfo 7 9 ''m1,abc,20'' = Inr \<lparr>identifier = ''m1'', numRows = 7, numCols = 20\<rparr>"
  unfolding constructStoredInfo_def vector_at_def sscanf_zu_eval
  by (simp add: read_fields_Nil read_fields_Cons)

text \<open>
  Claim C4, as amended. The parser maps \<^verbatim>\<open>m1,10,20\<close> to the descriptor with identifier
  \<^verbatim>\<open>m1\<close>, 10 rows and 20 columns. An input with fewer than three comma-delimited fields
  (fewer than two commas) fails: \<^verbatim>\<open>results.at\<close> throws \<^verbatim>\<open>std::out_of_range\<close> at the first
  missing field. An input with three or more fields yields a descriptor whose identifier is
  the first field, whatever the numeric fields hold.
\<close>

theorem constructStoredInfo_fields:
  "constructStoredInfo rows0 cols0 ''m1,10,20''
     = Inr \<lparr>identifier = ''m1'', numRows = 10, numCols = 20\<rparr>
   \<and> (commas input < 2 \<longrightarrow>
        constructStoredInfo rows0 cols0 input = Inl (out_of_range (Suc (commas input))))
   \<and> (2 \<le> commas input \<longrightarrow>
        (\<exists>info. constructStoredInfo rows0 cols0 input = Inr info
           \<and> identifier info = takeWhile (\<lambda>c. c \<noteq> CHR '','') input))"
  using construct_example construct_few_fields construct_three_fields by blast

theorem constructStoredInfo_fields_witness:
  "commas ''m1,10'' < 2 \<and> 2 \<le> commas ''m1,x,y''
   \<and> constructStoredInfo 7 9 ''m1,10'' = Inl (out_of_range 2)
   \<and> (\<exists>info. constructStoredInfo 7 9 ''m1,x,y'' = Inr info \<and> identifier info = ''m1'')"
proof -
  have h: "commas ''m1,10'' < 2" "2 \<le> commas ''m1,x,y''" "commas ''m1,10'' = 1"
    by (simp_all add: commas_def)
  from constructStoredInfo_fields [of 7 9 "''m1,10''"] h
  have a: "constructStoredInfo 7 9 ''m1,10'' = Inl (out_of_range 2)" by simp
  from constructStoredInfo_fields [of 7 9 "''m1,x,y''"] h
  have "\<exists>info. constructStoredInfo 7 9 ''m1,x,y'' = Inr info
           \<and> identifier info = takeWhile (\<lambda>c. c \<noteq> CHR '','') ''m1,x,y''"
    by blast
  then have b: "\<exists>info. constructStoredInfo 7 9 ''m1,x,y'' = Inr info \<and> identifier info = ''m1''"
    by simp
  from h a b show ?thesis by blast
qed


subsection \<open>Byte representations\<close>

lemma length_le_bytes [simp]: "length (le_bytes k n) = k"
  by (induction k arbitrary: n) simp_all

lemma length_size_t_bytes [simp]: "length (size_t_bytes n) = 8"
  by (simp add: size_t_bytes_def sizeof_size_t_def)

lemma length_word64_bytes [simp]: "length (word64_bytes w) = 8"
  by (simp add: word64_bytes_def sizeof_size_t_def)

lemma le_value_le_bytes: "le_value (le_bytes k n) = n mod 256 ^ k"
proof (induction k arbitrary: n)
  case 0
  then show ?case by simp
next
  case (Suc k)
  have "n mod 256 + 256 * (n div 256 mod 256 ^ k) = n mod (256 * 256 ^ k)"
    by (simp add: mod_mult2_eq)
  with Suc show ?case by simp
qed

lemma of_char_less_256: "(of_char c :: nat) < 256"
proof -
  have "(of_char c :: nat) mod 256 < 256" by (rule mod_less_divisor) simp
  then show ?thesis by (simp only: of_char_mod_256)
qed

lemma le_value_bound: "le_value bs < 256 ^ length bs"
proof (induction bs)
  case Nil
  then show ?case by simp
next
  case (Cons c cs)
  define a :: nat where "a = of_char c"
  define b where "b = le_value cs"
  define X :: nat where "X = 256 ^ length cs"
  have "a < 256" unfolding a_def by (rule of_char_less_256)
  moreover from Cons have "b + 1 \<le> X" by (simp add: b_def X_def)
  ultimately have "a + 256 * b < 256 * X" by arith
  then show ?case by (simp add: a_def b_def X_def)
qed

lemma le_bytes_le_value: "le_bytes (length bs) (le_value bs) = bs"
proof (induction bs)
  case Nil
  then show ?case by simp
next
  case (Cons c cs)
  have c: "of_char c < (256 :: nat)" by (rule of_char_less_256)
  then have "(of_char c + 256 * le_value cs) mod 256 = of_char c"
    and "(of_char c + 256 * le_value cs) div 256 = le_value cs"
    by simp_all
  with Cons show ?case by simp
qed

lemma le_value_size_t_bytes: "n < 2 ^ 64 \<Longrightarrow> le_value (size_t_bytes n) = n"
  by (simp add: size_t_bytes_def sizeof_size_t_def le_value_le_bytes)

lemma word_of_word64_bytes: "word_of_nat (le_value (word64_bytes w)) = (w :: 64 word)"
proof -
  have "unat w < 2 ^ 64" using unsigned_less [of w, where 'a = nat] by simp
  then have "le_value (word64_bytes w) = unat w"
    by (simp add: word64_bytes_def sizeof_size_t_def le_value_le_bytes)
  then show ?thesis by simp
qed

lemma word64_bytes_of_value:
  assumes "length bs = 8"
  shows "word64_bytes (word_of_nat (le_value bs)) = bs"
proof -
  have "le_value bs < 256 ^ 8" using le_value_bound [of bs] assms by simp
  then have "le_value bs < 2 ^ 64" by simp
  then have "unat (word_of_nat (le_value bs) :: 64 word) = le_value bs"
    by (simp add: unat_of_nat)
  then show ?thesis
    using le_bytes_le_value [of bs] assms by (simp add: word64_bytes_def sizeof_size_t_def)
qed

lemma size_t_bytes_of_value: "length bs = 8 \<Longrightarrow> size_t_bytes (le_value bs) = bs"
  using le_bytes_le_value [of bs] by (simp add: size_t_bytes_def sizeof_size_t_def)


subsection \<open>Reading and writing the storage\<close>

lemma then_do_Inr_iff: "then_do r f = Inr y \<longleftrightarrow> (\<exists>x. r = Inr x \<and> f x = Inr y)"
  by (cases r) (simp_all add: then_do_def)

lemma then_do_Inl_iff: "then_do r f = Inl e \<longleftrightarrow> r = Inl e \<or> (\<exists>x. r = Inr x \<and> f x = Inl e)"
  by (cases r) (simp_all add: then_do_def)

lemma then_do_Inr [simp]: "then_do (Inr x) f = f x"
  by (simp add: then_do_def)

lemma then_do_Inl [simp]: "then_do (Inl e) f = Inl e"
  by (simp add: then_do_def)

lemma read_bytes_Inr_iff:
  "read_bytes st pos n = Inr bs \<longleftrightarrow> pos + n \<le> length st \<and> bs = take n (drop pos st)"
  by (auto simp: read_bytes_def)

lemma read_bytes_Inl_iff:
  "read_bytes st pos n = Inl e \<longleftrightarrow> length st < pos + n \<and> e = read_past_end pos n"
  by (auto simp: read_bytes_def)

lemma read_bytes_split:
  assumes "read_bytes st pos n = Inr bs"
  shows "drop pos st = bs @ drop (pos + n) st" and "length bs = n" and "pos + n \<le> length st"
proof -
  from assms have b: "pos + n \<le> length st" and e: "bs = take n (drop pos st)"
    by (simp_all add: read_bytes_Inr_iff)
  show "pos + n \<le> length st" by (rule b)
  show "length bs = n" using b e by simp
  have "take n (drop pos st) @ drop n (drop pos st) = drop pos st"
    by (rule append_take_drop_id)
  moreover have "drop n (drop pos st) = drop (pos + n) st"
    by (simp add: add.commute)
  ultimately show "drop pos st = bs @ drop (pos + n) st" using e by simp
qed

lemma read_bytes_middle:
  "read_bytes (a @ b @ c) (length a) (length b) = Inr b"
  by (simp add: read_bytes_def)

lemma length_wire_input: "length (wire_input inp) = 24 + length (identifier inp)"
  by (simp add: wire_input_def)

lemma length_wire_layout:
  "length (wire_layout t) = 16 + length (mlir_code t) + length (concat (map wire_input (inputs t)))"
  by (simp add: wire_layout_def)

lemma length_wire_inputs:
  "length (concat (map wire_input inps)) = 24 * length inps + sum_list (map (\<lambda>inp. length (identifier inp)) inps)"
  by (induction inps) (simp_all add: length_wire_input)

subsection \<open>deserialize on a buffer that holds a wire layout\<close>

lemma deserialize_inputs_wire:
  assumes "list_all (\<lambda>inp. length (identifier inp) \<le> max_size_string P) inps"
    and "max_size_string P < 2 ^ 64"
  shows "deserialize_inputs P (pre @ concat (map wire_input inps) @ post) (length pre) (length inps)
    = Inr inps"
  using assms(1)
proof (induction inps arbitrary: pre)
  case Nil
  then show ?case by simp
next
  case (Cons inp inps)
  let ?ident = "identifier inp"
  define rest where "rest = concat (map wire_input inps) @ post"
  define st where "st = pre @ concat (map wire_input (inp # inps)) @ post"
  have len: "length ?ident \<le> max_size_string P" and tl: "list_all (\<lambda>inp. length (identifier inp) \<le> max_size_string P) inps"
    using Cons.prems by simp_all
  have small: "length ?ident < 2 ^ 64" using len assms(2) by simp
  have st1: "st = pre @ size_t_bytes (length ?ident) @ (?ident @ word64_bytes (numRows inp) @ word64_bytes (numCols inp) @ rest)"
    by (simp add: st_def wire_input_def rest_def)
  have st2: "st = (pre @ size_t_bytes (length ?ident)) @ ?ident @ (word64_bytes (numRows inp) @ word64_bytes (numCols inp) @ rest)"
    by (simp add: st1)
  have st3: "st = (pre @ size_t_bytes (length ?ident) @ ?ident) @ word64_bytes (numRows inp) @ (word64_bytes (numCols inp) @ rest)"
    by (simp add: st1)
  have st4: "st = (pre @ size_t_bytes (length ?ident) @ ?ident @ word64_bytes (numRows inp)) @ word64_bytes (numCols inp) @ rest"
    by (simp add: st1)
  have st5: "st = (pre @ wire_input inp) @ concat (map wire_input inps) @ post"
    by (simp add: st_def)
  have r1: "read_bytes st (length pre) sizeof_size_t = Inr (size_t_bytes (length ?ident))"
    using read_bytes_middle [of pre "size_t_bytes (length ?ident)"] by (simp add: st1 sizeof_size_t_def)
  have r2: "read_bytes st (length pre + sizeof_size_t) (length ?ident) = Inr ?ident"
    using read_bytes_middle [of "pre @ size_t_bytes (length ?ident)" ?ident]
    by (simp add: st2 sizeof_size_t_def)
  have r3: "read_bytes st (length pre + sizeof_size_t + length ?ident) sizeof_size_t = Inr (word64_bytes (numRows inp))"
    using read_bytes_middle [of "pre @ size_t_bytes (length ?ident) @ ?ident" "word64_bytes (numRows inp)"]
    by (simp add: st3 sizeof_size_t_def add.assoc)
  have r4: "read_bytes st (length pre + sizeof_size_t + length ?ident + sizeof_size_t) sizeof_size_t = Inr (word64_bytes (numCols inp))"
    using read_bytes_middle [of "pre @ size_t_bytes (length ?ident) @ ?ident @ word64_bytes (numRows inp)" "word64_bytes (numCols inp)"]
    by (simp add: st4 sizeof_size_t_def add.assoc)
  have r5: "deserialize_inputs P st (length pre + sizeof_size_t + length ?ident + sizeof_size_t + sizeof_size_t) (length inps) = Inr inps"
    using Cons.IH [OF tl, of "pre @ wire_input inp"]
    by (simp add: st5 length_wire_input sizeof_size_t_def add.assoc add.commute add.left_commute)
  have "deserialize_inputs P st (length pre) (Suc (length inps)) = Inr (inp # inps)"
    using len by (simp add: r1 le_value_size_t_bytes [OF small] r2 r3 r4 r5 word_of_word64_bytes)
  then show ?case by (simp add: st_def)
qed

lemma deserialize_wire:
  assumes "platform_ok P" and "task_ok P t" and "storage buffer = wire_layout t @ post"
  shows "deserialize P buffer = Inr t"
proof -
  define code where "code = mlir_code t"
  define n where "n = length (inputs t)"
  define body where "body = concat (map wire_input (inputs t)) @ post"
  define st where "st = storage buffer"
  have lc: "length code \<le> max_size_string P" and ln: "n \<le> max_size_inputs P"
    and li: "list_all (\<lambda>inp. length (identifier inp) \<le> max_size_string P) (inputs t)"
    using assms(2) by (simp_all add: task_ok_def code_def n_def)
  have ms: "max_size_string P < 2 ^ 64" and mi: "max_size_inputs P < 2 ^ 64"
    using assms(1) by (simp_all add: platform_ok_def)
  have sc: "length code < 2 ^ 64" and sn: "n < 2 ^ 64" using lc ln ms mi by simp_all
  have st1: "st = [] @ size_t_bytes (length code) @ (size_t_bytes n @ code @ body)"
    by (simp add: st_def assms(3) wire_layout_def code_def n_def body_def)
  have st2: "st = size_t_bytes (length code) @ size_t_bytes n @ (code @ body)"
    by (simp add: st1)
  have st3: "st = (size_t_bytes (length code) @ size_t_bytes n) @ code @ body"
    by (simp add: st1)
  have st4: "st = (size_t_bytes (length code) @ size_t_bytes n @ code) @ concat (map wire_input (inputs t)) @ post"
    by (simp add: st1 body_def)
  have r1: "read_bytes st 0 sizeof_size_t = Inr (size_t_bytes (length code))"
    using read_bytes_middle [of "[]" "size_t_bytes (length code)"] by (simp add: st1 sizeof_size_t_def)
  have r2: "read_bytes st sizeof_size_t sizeof_size_t = Inr (size_t_bytes n)"
    using read_bytes_middle [of "size_t_bytes (length code)" "size_t_bytes n"]
    by (simp add: st2 sizeof_size_t_def)
  have r3: "read_bytes st sizeof_Header (length code) = Inr code"
    using read_bytes_middle [of "size_t_bytes (length code) @ size_t_bytes n" code]
    by (simp add: st3 sizeof_Header_def)
  have r4: "deserialize_inputs P st (sizeof_Header + length code) n = Inr (inputs t)"
    using deserialize_inputs_wire [OF li ms, of "size_t_bytes (length code) @ size_t_bytes n @ code" post]
    by (simp add: st4 sizeof_Header_def n_def)
  have "deserialize P buffer = Inr \<lparr>mlir_code = code, inputs = inputs t\<rparr>"
    using lc ln
    by (simp add: deserialize_def Let_def st_def [symmetric] r1 r2 r3 r4
        le_value_size_t_bytes [OF sc] le_value_size_t_bytes [OF sn])
  then show ?thesis by (simp add: code_def)
qed


subsection \<open>What deserialize has read when it returns\<close>

lemma deserialize_inputs_sound:
  assumes "deserialize_inputs P st pos k = Inr inps"
  shows "length inps = k \<and> (\<exists>post. drop pos st = concat (map wire_input inps) @ post)"
  using assms
proof (induction k arbitrary: pos inps)
  case 0
  then show ?case by simp
next
  case (Suc k)
  from Suc.prems obtain lenBytes where r1: "read_bytes st pos sizeof_size_t = Inr lenBytes"
    and c1: "(let strLen = le_value lenBytes in
       if max_size_string P < strLen then Inl length_error
       else
         then_do (read_bytes st (pos + sizeof_size_t) strLen) (\<lambda>ident.
         then_do (read_bytes st (pos + sizeof_size_t + strLen) sizeof_size_t) (\<lambda>rowBytes.
         then_do (read_bytes st (pos + sizeof_size_t + strLen + sizeof_size_t) sizeof_size_t) (\<lambda>colBytes.
         then_do (deserialize_inputs P st
                    (pos + sizeof_size_t + strLen + sizeof_size_t + sizeof_size_t) k) (\<lambda>rest.
         Inr (\<lparr>identifier = ident, numRows = word_of_nat (le_value rowBytes),
                numCols = word_of_nat (le_value colBytes)\<rparr> # rest)))))) = Inr inps"
    by (auto simp: then_do_Inr_iff)
  define strLen where "strLen = le_value lenBytes"
  from c1 obtain ident rowBytes colBytes rest where
    r2: "read_bytes st (pos + sizeof_size_t) strLen = Inr ident"
    and r3: "read_bytes st (pos + sizeof_size_t + strLen) sizeof_size_t = Inr rowBytes"
    and r4: "read_bytes st (pos + sizeof_size_t + strLen + sizeof_size_t) sizeof_size_t = Inr colBytes"
    and r5: "deserialize_inputs P st (pos + sizeof_size_t + strLen + sizeof_size_t + sizeof_size_t) k = Inr rest"
    and res: "inps = \<lparr>identifier = ident, numRows = word_of_nat (le_value rowBytes),
                numCols = word_of_nat (le_value colBytes)\<rparr> # rest"
    by (auto simp: Let_def strLen_def then_do_Inr_iff split: if_splits)
  from Suc.IH [OF r5] obtain post where
    lr: "length rest = k"
    and d5: "drop (pos + sizeof_size_t + strLen + sizeof_size_t + sizeof_size_t) st
             = concat (map wire_input rest) @ post"
    by blast
  note s1 = read_bytes_split [OF r1] and s2 = read_bytes_split [OF r2]
    and s3 = read_bytes_split [OF r3] and s4 = read_bytes_split [OF r4]
  have l1: "length lenBytes = 8" and l3: "length rowBytes = 8" and l4: "length colBytes = 8"
    using s1(2) s3(2) s4(2) by (simp_all add: sizeof_size_t_def)
  have w: "wire_input \<lparr>identifier = ident, numRows = word_of_nat (le_value rowBytes),
                numCols = word_of_nat (le_value colBytes)\<rparr> = lenBytes @ ident @ rowBytes @ colBytes"
    using s2(2) l1 l3 l4
    by (simp add: wire_input_def strLen_def size_t_bytes_of_value word64_bytes_of_value)
  have "drop pos st = lenBytes @ ident @ rowBytes @ colBytes @ concat (map wire_input rest) @ post"
    using s1(1) s2(1) s3(1) s4(1) d5 by simp
  then have "drop pos st = concat (map wire_input inps) @ post"
    by (simp add: res w)
  then show ?case using lr res by auto
qed

lemma deserialize_sound:
  assumes "deserialize P buffer = Inr t"
  shows "prefix (wire_layout t) (storage buffer)"
proof -
  define st where "st = storage buffer"
  from assms obtain codeLenBytes numBytes code inps where
    r1: "read_bytes st 0 sizeof_size_t = Inr codeLenBytes"
    and r2: "read_bytes st sizeof_size_t sizeof_size_t = Inr numBytes"
    and r3: "read_bytes st sizeof_Header (le_value codeLenBytes) = Inr code"
    and r4: "deserialize_inputs P st (sizeof_Header + le_value codeLenBytes) (le_value numBytes) = Inr inps"
    and res: "t = \<lparr>mlir_code = code, inputs = inps\<rparr>"
    by (auto simp: deserialize_def Let_def st_def then_do_Inr_iff split: if_splits)
  note s1 = read_bytes_split [OF r1] and s2 = read_bytes_split [OF r2]
    and s3 = read_bytes_split [OF r3]
  from deserialize_inputs_sound [OF r4] obtain post where
    li: "length inps = le_value numBytes"
    and d4: "drop (sizeof_Header + le_value codeLenBytes) st = concat (map wire_input inps) @ post"
    by blast
  have l1: "length codeLenBytes = 8" and l2: "length numBytes = 8"
    using s1(2) s2(2) by (simp_all add: sizeof_size_t_def)
  have w: "wire_layout t = codeLenBytes @ numBytes @ code @ concat (map wire_input inps)"
    using s3(2) li l1 l2 by (simp add: wire_layout_def res size_t_bytes_of_value)
  have "drop 0 st = codeLenBytes @ numBytes @ code @ concat (map wire_input inps) @ post"
    using s1(1) s2(1) s3(1) d4 by (simp add: sizeof_size_t_def sizeof_Header_def)
  then have "st = wire_layout t @ post" by (simp add: w)
  then show ?thesis by (simp add: st_def [symmetric])
qed

text \<open>
  The header of the 16-byte buffer declares five bytes of code. \<^verbatim>\<open>deserialize\<close> resizes the
  code string to five characters and copies five bytes from offset 16, the end of the
  buffer: no check comes before the read.
\<close>

theorem deserialize_short_buffer_counterexample:
  "length (storage short_buffer) = 16
   \<and> deserialize example_platform short_buffer = Inl (read_past_end 16 5)"
  unfolding deserialize_def short_buffer_def example_platform_def
  by (simp add: read_bytes_def Let_def sizeof_size_t_def sizeof_Header_def le_value_size_t_bytes)

subsection \<open>deserialize on a truncated wire layout\<close>

lemma read_bytes_take:
  assumes "k \<le> length full"
  shows "read_bytes (take k full) pos n =
    (if pos + n \<le> k then read_bytes full pos n else Inl (read_past_end pos n))"
proof (cases "pos + n \<le> k")
  case True
  have "drop pos (take k full) = take (k - pos) (drop pos full)"
    by (rule drop_take)
  moreover have "take n (take (k - pos) (drop pos full)) = take n (drop pos full)"
    using True by (simp add: min_def)
  ultimately show ?thesis using True assms by (simp add: read_bytes_def)
next
  case False
  then show ?thesis using assms by (simp add: read_bytes_def)
qed

lemma deserialize_inputs_truncated:
  assumes "deserialize_inputs P full pos cnt = Inr inps"
    and "k \<le> length full" and "pos \<le> k"
    and "k < pos + length (concat (map wire_input inps))"
  shows "\<exists>e. deserialize_inputs P (take k full) pos cnt = Inl e \<and> past_end (take k full) e"
  using assms(1,3,4)
proof (induction cnt arbitrary: pos inps)
  case 0
  then show ?case by simp
next
  case (Suc cnt)
  note rt = read_bytes_take [OF assms(2)]
  have lk: "length (take k full) = k" using assms(2) by simp
  from Suc.prems(1) obtain lenBytes where r1: "read_bytes full pos sizeof_size_t = Inr lenBytes"
    and c1: "(let strLen = le_value lenBytes in
       if max_size_string P < strLen then Inl length_error
       else
         then_do (read_bytes full (pos + sizeof_size_t) strLen) (\<lambda>ident.
         then_do (read_bytes full (pos + sizeof_size_t + strLen) sizeof_size_t) (\<lambda>rowBytes.
         then_do (read_bytes full (pos + sizeof_size_t + strLen + sizeof_size_t) sizeof_size_t) (\<lambda>colBytes.
         then_do (deserialize_inputs P full
                    (pos + sizeof_size_t + strLen + sizeof_size_t + sizeof_size_t) cnt) (\<lambda>rest.
         Inr (\<lparr>identifier = ident, numRows = word_of_nat (le_value rowBytes),
                numCols = word_of_nat (le_value colBytes)\<rparr> # rest)))))) = Inr inps"
    by (auto simp: then_do_Inr_iff)
  define strLen where "strLen = le_value lenBytes"
  from c1 obtain ident rowBytes colBytes rest where
    nle: "\<not> max_size_string P < strLen"
    and r2: "read_bytes full (pos + sizeof_size_t) strLen = Inr ident"
    and r3: "read_bytes full (pos + sizeof_size_t + strLen) sizeof_size_t = Inr rowBytes"
    and r4: "read_bytes full (pos + sizeof_size_t + strLen + sizeof_size_t) sizeof_size_t = Inr colBytes"
    and r5: "deserialize_inputs P full (pos + sizeof_size_t + strLen + sizeof_size_t + sizeof_size_t) cnt = Inr rest"
    and res: "inps = \<lparr>identifier = ident, numRows = word_of_nat (le_value rowBytes),
                numCols = word_of_nat (le_value colBytes)\<rparr> # rest"
    by (auto simp: Let_def strLen_def then_do_Inr_iff split: if_splits)
  have li: "length ident = strLen" using read_bytes_split(2) [OF r2] .
  have short: "k < pos + 24 + strLen + length (concat (map wire_input rest))"
    using Suc.prems(3) by (simp add: res length_wire_input li)
  show ?case
  proof (cases "pos + sizeof_size_t \<le> k")
    case False
    then have "deserialize_inputs P (take k full) pos (Suc cnt) = Inl (read_past_end pos sizeof_size_t)"
      by (simp add: rt)
    moreover have "past_end (take k full) (read_past_end pos sizeof_size_t)"
      using False Suc.prems(2) by (simp add: past_end_def min_absorb2 [OF assms(2)])
    ultimately show ?thesis by blast
  next
    case k1: True
    show ?thesis
    proof (cases "pos + sizeof_size_t + strLen \<le> k")
      case False
      then have "deserialize_inputs P (take k full) pos (Suc cnt)
          = Inl (read_past_end (pos + sizeof_size_t) strLen)"
        using k1 nle by (simp add: rt r1 Let_def strLen_def [symmetric])
      moreover have "past_end (take k full) (read_past_end (pos + sizeof_size_t) strLen)"
        using False k1 by (simp add: past_end_def min_absorb2 [OF assms(2)])
      ultimately show ?thesis by blast
    next
      case k2: True
      show ?thesis
      proof (cases "pos + sizeof_size_t + strLen + sizeof_size_t \<le> k")
        case False
        then have "deserialize_inputs P (take k full) pos (Suc cnt)
            = Inl (read_past_end (pos + sizeof_size_t + strLen) sizeof_size_t)"
          using k1 k2 nle by (simp add: rt r1 r2 Let_def strLen_def [symmetric])
        moreover have "past_end (take k full) (read_past_end (pos + sizeof_size_t + strLen) sizeof_size_t)"
          using False k2 by (simp add: past_end_def min_absorb2 [OF assms(2)])
        ultimately show ?thesis by blast
      next
        case k3: True
        show ?thesis
        proof (cases "pos + sizeof_size_t + strLen + sizeof_size_t + sizeof_size_t \<le> k")
          case False
          then have "deserialize_inputs P (take k full) pos (Suc cnt)
              = Inl (read_past_end (pos + sizeof_size_t + strLen + sizeof_size_t) sizeof_size_t)"
            using k1 k2 k3 nle by (simp add: rt r1 r2 r3 Let_def strLen_def [symmetric])
          moreover have "past_end (take k full)
              (read_past_end (pos + sizeof_size_t + strLen + sizeof_size_t) sizeof_size_t)"
            using False k3 by (simp add: past_end_def min_absorb2 [OF assms(2)])
          ultimately show ?thesis by blast
        next
          case k4: True
          have "k < (pos + sizeof_size_t + strLen + sizeof_size_t + sizeof_size_t)
                    + length (concat (map wire_input rest))"
            using short by (simp add: sizeof_size_t_def)
          from Suc.IH [OF r5 k4 this] obtain e where
            f: "deserialize_inputs P (take k full)
                  (pos + sizeof_size_t + strLen + sizeof_size_t + sizeof_size_t) cnt = Inl e"
            and g: "past_end (take k full) e"
            by blast
          have "deserialize_inputs P (take k full) pos (Suc cnt) = Inl e"
            using k1 k2 k3 k4 nle by (simp add: rt r1 r2 r3 r4 f Let_def strLen_def [symmetric])
          with g show ?thesis by blast
        qed
      qed
    qed
  qed
qed

lemma deserialize_truncated:
  assumes d: "deserialize P b = Inr t"
    and k: "k < length (wire_layout t)"
    and s: "storage b' = take k (storage b)"
  shows "\<exists>e. deserialize P b' = Inl e \<and> past_end (storage b') e"
proof -
  define full where "full = storage b"
  from deserialize_sound [OF d] have "length (wire_layout t) \<le> length full"
    by (auto simp: prefix_def full_def)
  with k have kf: "k \<le> length full" by simp
  note rt = read_bytes_take [OF kf]
  have lk: "length (take k full) = k" using kf by simp
  from d obtain codeLenBytes numBytes code inps where
    r1: "read_bytes full 0 sizeof_size_t = Inr codeLenBytes"
    and r2: "read_bytes full sizeof_size_t sizeof_size_t = Inr numBytes"
    and n1: "\<not> max_size_string P < le_value codeLenBytes"
    and r3: "read_bytes full sizeof_Header (le_value codeLenBytes) = Inr code"
    and n2: "\<not> max_size_inputs P < le_value numBytes"
    and r4: "deserialize_inputs P full (sizeof_Header + le_value codeLenBytes) (le_value numBytes) = Inr inps"
    and res: "t = \<lparr>mlir_code = code, inputs = inps\<rparr>"
    by (auto simp: deserialize_def Let_def full_def then_do_Inr_iff split: if_splits)
  have lc: "length code = le_value codeLenBytes" using read_bytes_split(2) [OF r3] .
  have short: "k < sizeof_Header + le_value codeLenBytes + length (concat (map wire_input inps))"
    using k by (simp add: length_wire_layout res lc sizeof_Header_def)
  have st: "storage b' = take k full" using s by (simp add: full_def)
  have "\<exists>e. deserialize P b' = Inl e \<and> past_end (take k full) e"
  proof (cases "sizeof_size_t \<le> k")
    case False
    then have "deserialize P b' = Inl (read_past_end 0 sizeof_size_t)"
      by (simp add: deserialize_def st rt Let_def)
    moreover have "past_end (take k full) (read_past_end 0 sizeof_size_t)"
      using False by (simp add: past_end_def min_absorb2 [OF kf])
    ultimately show ?thesis by blast
  next
    case k1: True
    show ?thesis
    proof (cases "sizeof_size_t + sizeof_size_t \<le> k")
      case False
      then have "deserialize P b' = Inl (read_past_end sizeof_size_t sizeof_size_t)"
        using k1 by (simp add: deserialize_def st rt r1 Let_def)
      moreover have "past_end (take k full) (read_past_end sizeof_size_t sizeof_size_t)"
        using False k1 by (simp add: past_end_def min_absorb2 [OF kf])
      ultimately show ?thesis by blast
    next
      case k2: True
      then have h: "sizeof_Header \<le> k" by (simp add: sizeof_Header_def sizeof_size_t_def)
      show ?thesis
      proof (cases "sizeof_Header + le_value codeLenBytes \<le> k")
        case False
        then have "deserialize P b' = Inl (read_past_end sizeof_Header (le_value codeLenBytes))"
          using k1 k2 n1 by (simp add: deserialize_def st rt r1 r2 Let_def)
        moreover have "past_end (take k full) (read_past_end sizeof_Header (le_value codeLenBytes))"
          using False h by (simp add: past_end_def min_absorb2 [OF kf])
        ultimately show ?thesis by blast
      next
        case k3: True
        from deserialize_inputs_truncated [OF r4 kf k3 short] obtain e where
          f: "deserialize_inputs P (take k full) (sizeof_Header + le_value codeLenBytes)
                (le_value numBytes) = Inl e"
          and g: "past_end (take k full) e"
          by blast
        have "deserialize P b' = Inl e"
          using k1 k2 k3 n1 n2 by (simp add: deserialize_def st rt r1 r2 r3 f Let_def)
        with g show ?thesis by blast
      qed
    qed
  qed
  then show ?thesis by (simp add: st)
qed

text \<open>
  Claim C6, as amended. A buffer that holds only the first \<open>k\<close> bytes of the wire layout
  of a task, \<open>k\<close> below the length of the layout and the sizes of the task within what
  \<^verbatim>\<open>resize\<close> accepts, is shorter than the lengths its header declares. \<^verbatim>\<open>deserialize\<close> does
  not reject such a buffer and does not fail ahead of the access: it performs a read that
  starts within the buffer and ends beyond its end.
\<close>

theorem deserialize_truncated_layout:
  "platform_ok P \<and> task_ok P t \<and> k < length (wire_layout t)
     \<and> storage buffer = take k (wire_layout t) \<longrightarrow>
   (\<exists>p n. deserialize P buffer = Inl (read_past_end p n)
      \<and> p \<le> length (storage buffer) \<and> length (storage buffer) < p + n)"
proof
  assume a: "platform_ok P \<and> task_ok P t \<and> k < length (wire_layout t)
     \<and> storage buffer = take k (wire_layout t)"
  let ?full = "\<lparr>vec_size = length (wire_layout t), storage = wire_layout t\<rparr>"
  have "storage ?full = wire_layout t @ []" by simp
  with a have d: "deserialize P ?full = Inr t" by (intro deserialize_wire) simp_all
  from a have "storage buffer = take k (storage ?full)" by simp
  from deserialize_truncated [OF d _ this] a
  have "\<exists>e. deserialize P buffer = Inl e \<and> past_end (storage buffer) e" by blast
  then show "\<exists>p n. deserialize P buffer = Inl (read_past_end p n)
      \<and> p \<le> length (storage buffer) \<and> length (storage buffer) < p + n"
    by (auto simp: past_end_def)
qed

theorem deserialize_truncated_layout_witness:
  "platform_ok example_platform \<and> task_ok example_platform example_task
   \<and> (42 :: nat) < length (wire_layout example_task)
   \<and> (\<exists>p n. deserialize example_platform
               \<lparr>vec_size = 42, storage = take 42 (wire_layout example_task)\<rparr>
             = Inl (read_past_end p n) \<and> p \<le> 42 \<and> 42 < p + n)"
proof -
  have ok: "platform_ok example_platform" "task_ok example_platform example_task"
    by (simp_all add: platform_ok_def task_ok_def example_platform_def example_task_def)
  have l: "length (wire_layout example_task) = 43"
    by (simp add: length_wire_layout length_wire_input example_task_def)
  have lt: "length (take 42 (wire_layout example_task)) = 42" by (simp add: l)
  from deserialize_truncated_layout
    [of example_platform example_task 42 "\<lparr>vec_size = 42, storage = take 42 (wire_layout example_task)\<rparr>"]
    ok l
  have "\<exists>p n. deserialize example_platform
               \<lparr>vec_size = 42, storage = take 42 (wire_layout example_task)\<rparr>
             = Inl (read_past_end p n) \<and> p \<le> 42 \<and> 42 < p + n"
    by (simp add: lt)
  with ok l show ?thesis by simp
qed

subsection \<open>serialize and the size that sizeInBytes reserves\<close>

text \<open>
  Claim C5 fails on the code. \<^verbatim>\<open>sizeInBytes\<close> counts \<^verbatim>\<open>sizeof(StoredInfo)\<close> for each input,
  whatever the length of its identifier: 65 bytes for the task with the code \<^verbatim>\<open>x\<close> and the
  input \<^verbatim>\<open>m1\<close>, 10, 20, of which \<^verbatim>\<open>serialize\<close> writes 43, the length of the wire layout. On
  every platform the value of \<^verbatim>\<open>sizeInBytes\<close> stays the same when the identifiers change,
  while the wire layout holds every identifier byte.
\<close>

theorem sizeInBytes_differs_from_wire_size:
  "sizeInBytes example_platform example_task = 65
   \<and> length (wire_layout example_task) = 43
   \<and> then_do (serialize_run example_platform example_task empty_vector) (\<lambda>(b, bufIdx). Inr bufIdx) = Inr 43
   \<and> sizeInBytes P (t\<lparr>inputs := map (\<lambda>inp. inp\<lparr>identifier := f inp\<rparr>) (inputs t)\<rparr>) = sizeInBytes P t
   \<and> length (wire_layout t) =
       16 + length (mlir_code t) + 24 * length (inputs t)
       + sum_list (map (\<lambda>inp. length (identifier inp)) (inputs t))"
proof (intro conjI)
  show "sizeInBytes example_platform example_task = 65"
    by (simp add: sizeInBytes_def example_platform_def example_task_def sizeof_Header_def)
  show "length (wire_layout example_task) = 43"
    by (simp add: length_wire_layout length_wire_input example_task_def)
  show "then_do (serialize_run example_platform example_task empty_vector) (\<lambda>(b, bufIdx). Inr bufIdx) = Inr 43"
    unfolding serialize_run_def example_platform_def example_task_def empty_vector_def reserve_def
      sizeInBytes_def
    by (simp add: write_bytes_def Let_def sizeof_size_t_def sizeof_Header_def)
  show "sizeInBytes P (t\<lparr>inputs := map (\<lambda>inp. inp\<lparr>identifier := f inp\<rparr>) (inputs t)\<rparr>) = sizeInBytes P t"
    by (simp add: sizeInBytes_def)
  show "length (wire_layout t) =
       16 + length (mlir_code t) + 24 * length (inputs t)
       + sum_list (map (\<lambda>inp. length (identifier inp)) (inputs t))"
    by (simp add: length_wire_layout length_wire_inputs)
qed

text \<open>
  Claim C1 fails on the code. For the task with the code \<^verbatim>\<open>x\<close> and one input whose
  identifier has 30 characters, \<^verbatim>\<open>serialize\<close> reserves 65 bytes, the value of
  \<^verbatim>\<open>sizeInBytes\<close>, and the wire layout takes 71: the copy of \<^verbatim>\<open>numCols\<close>, eight bytes at
  offset 63, writes beyond the end of the storage.
\<close>

theorem serialize_writes_past_reserved:
  "sizeInBytes example_platform long_identifier_task = 65
   \<and> length (wire_layout long_identifier_task) = 71
   \<and> serialize example_platform long_identifier_task empty_vector = Inl (write_past_end 63 8)"
proof (intro conjI)
  show "sizeInBytes example_platform long_identifier_task = 65"
    by (simp add: sizeInBytes_def example_platform_def long_identifier_task_def sizeof_Header_def)
  show "length (wire_layout long_identifier_task) = 71"
    by (simp add: length_wire_layout length_wire_input long_identifier_task_def)
  show "serialize example_platform long_identifier_task empty_vector = Inl (write_past_end 63 8)"
    unfolding serialize_def serialize_run_def example_platform_def long_identifier_task_def
      empty_vector_def reserve_def sizeInBytes_def
    by (simp add: write_bytes_def Let_def sizeof_size_t_def sizeof_Header_def)
qed


subsection \<open>serialize on storage with and without room for the wire layout\<close>

lemma write_bytes_append:
  "length bs \<le> length b \<Longrightarrow> write_bytes (a @ b) (length a) bs = Inr (a @ bs @ drop (length bs) b)"
  by (simp add: write_bytes_def)

lemma write_bytes_no_room:
  "length b < length bs \<Longrightarrow>
   write_bytes (a @ b) (length a) bs = Inl (write_past_end (length a) (length bs))"
  by (simp add: write_bytes_def)

lemma serialize_inputs_room:
  assumes "length (concat (map wire_input inps)) \<le> length b"
  shows "serialize_inputs (a @ b) (length a) inps =
    Inr (a @ concat (map wire_input inps) @ drop (length (concat (map wire_input inps))) b,
         length a + length (concat (map wire_input inps)))"
  using assms
proof (induction inps arbitrary: a b)
  case Nil
  then show ?case by simp
next
  case (Cons inp inps)
  let ?ident = "identifier inp"
  let ?L = "size_t_bytes (length ?ident)"
  let ?R = "word64_bytes (numRows inp)"
  let ?C = "word64_bytes (numCols inp)"
  let ?W = "concat (map wire_input inps)"
  from Cons.prems have room: "24 + length ?ident + length ?W \<le> length b"
    by (simp add: length_wire_input)
  have w1: "write_bytes (a @ b) (length a) ?L = Inr ((a @ ?L) @ drop 8 b)"
    using room write_bytes_append [of ?L b a] by simp
  have w2: "write_bytes ((a @ ?L) @ drop 8 b) (length a + sizeof_size_t) ?ident
      = Inr ((a @ ?L @ ?ident) @ drop (8 + length ?ident) b)"
    using room write_bytes_append [of ?ident "drop 8 b" "a @ ?L"]
    by (simp add: sizeof_size_t_def add.commute)
  have w3: "write_bytes ((a @ ?L @ ?ident) @ drop (8 + length ?ident) b)
        (length a + sizeof_size_t + length ?ident) ?R
      = Inr ((a @ ?L @ ?ident @ ?R) @ drop (16 + length ?ident) b)"
    using room write_bytes_append [of ?R "drop (8 + length ?ident) b" "a @ ?L @ ?ident"]
    by (simp add: sizeof_size_t_def add.commute add.left_commute)
  have w4: "write_bytes ((a @ ?L @ ?ident @ ?R) @ drop (16 + length ?ident) b)
        (length a + sizeof_size_t + length ?ident + sizeof_size_t) ?C
      = Inr ((a @ wire_input inp) @ drop (24 + length ?ident) b)"
    using room write_bytes_append [of ?C "drop (16 + length ?ident) b" "a @ ?L @ ?ident @ ?R"]
    by (simp add: sizeof_size_t_def wire_input_def add.commute add.left_commute)
  have "length ?W \<le> length (drop (24 + length ?ident) b)" using room by simp
  from Cons.IH [OF this, of "a @ wire_input inp"]
  have w5: "serialize_inputs ((a @ wire_input inp) @ drop (24 + length ?ident) b)
        (length a + sizeof_size_t + length ?ident + sizeof_size_t + sizeof_size_t) inps
      = Inr (a @ wire_input inp @ ?W @ drop (length (wire_input inp) + length ?W) b,
             length a + (length (wire_input inp) + length ?W))"
    by (simp add: length_wire_input sizeof_size_t_def add.commute add.left_commute)
  show ?case
    by (simp only: serialize_inputs.simps Let_def w1 then_do_Inr w2 w3 w4 w5)
       (simp add: add.assoc)
qed

lemma serialize_inputs_no_room:
  assumes "length b < length (concat (map wire_input inps))"
  shows "\<exists>p n. serialize_inputs (a @ b) (length a) inps = Inl (write_past_end p n)
           \<and> length (a @ b) < p + n"
  using assms
proof (induction inps arbitrary: a b)
  case Nil
  then show ?case by simp
next
  case (Cons inp inps)
  let ?ident = "identifier inp"
  let ?L = "size_t_bytes (length ?ident)"
  let ?R = "word64_bytes (numRows inp)"
  let ?C = "word64_bytes (numCols inp)"
  let ?W = "concat (map wire_input inps)"
  from Cons.prems have short: "length b < 24 + length ?ident + length ?W"
    by (simp add: length_wire_input)
  show ?case
  proof (cases "length b < 8")
    case True
    then have f: "write_bytes (a @ b) (length a) ?L = Inl (write_past_end (length a) 8)"
      using write_bytes_no_room [of b ?L a] by simp
    have "serialize_inputs (a @ b) (length a) (inp # inps) = Inl (write_past_end (length a) 8)"
      by (simp only: serialize_inputs.simps Let_def f then_do_Inl)
    moreover have "length (a @ b) < length a + 8" using True by simp
    ultimately show ?thesis by blast
  next
    case c1: False
    then have w1: "write_bytes (a @ b) (length a) ?L = Inr ((a @ ?L) @ drop 8 b)"
      using write_bytes_append [of ?L b a] by simp
    show ?thesis
    proof (cases "length b < 8 + length ?ident")
      case True
      then have f: "write_bytes ((a @ ?L) @ drop 8 b) (length a + sizeof_size_t) ?ident
          = Inl (write_past_end (length a + 8) (length ?ident))"
        using c1 write_bytes_no_room [of "drop 8 b" ?ident "a @ ?L"]
        by (simp add: sizeof_size_t_def)
      have "serialize_inputs (a @ b) (length a) (inp # inps)
          = Inl (write_past_end (length a + 8) (length ?ident))"
        by (simp only: serialize_inputs.simps Let_def w1 then_do_Inr f then_do_Inl)
      moreover have "length (a @ b) < length a + 8 + length ?ident" using True by simp
      ultimately show ?thesis by blast
    next
      case c2: False
      then have w2: "write_bytes ((a @ ?L) @ drop 8 b) (length a + sizeof_size_t) ?ident
          = Inr ((a @ ?L @ ?ident) @ drop (8 + length ?ident) b)"
        using write_bytes_append [of ?ident "drop 8 b" "a @ ?L"]
        by (simp add: sizeof_size_t_def add.commute)
      show ?thesis
      proof (cases "length b < 16 + length ?ident")
        case True
        then have f: "write_bytes ((a @ ?L @ ?ident) @ drop (8 + length ?ident) b)
              (length a + sizeof_size_t + length ?ident) ?R
            = Inl (write_past_end (length a + 8 + length ?ident) 8)"
          using c2 write_bytes_no_room [of "drop (8 + length ?ident) b" ?R "a @ ?L @ ?ident"]
          by (simp add: sizeof_size_t_def add.assoc)
        have "serialize_inputs (a @ b) (length a) (inp # inps)
            = Inl (write_past_end (length a + 8 + length ?ident) 8)"
          by (simp only: serialize_inputs.simps Let_def w1 then_do_Inr w2 f then_do_Inl)
        moreover have "length (a @ b) < length a + 8 + length ?ident + 8" using True by simp
        ultimately show ?thesis by blast
      next
        case c3: False
        then have w3: "write_bytes ((a @ ?L @ ?ident) @ drop (8 + length ?ident) b)
              (length a + sizeof_size_t + length ?ident) ?R
            = Inr ((a @ ?L @ ?ident @ ?R) @ drop (16 + length ?ident) b)"
          using write_bytes_append [of ?R "drop (8 + length ?ident) b" "a @ ?L @ ?ident"]
          by (simp add: sizeof_size_t_def add.commute add.left_commute)
        show ?thesis
        proof (cases "length b < 24 + length ?ident")
          case True
          then have f: "write_bytes ((a @ ?L @ ?ident @ ?R) @ drop (16 + length ?ident) b)
                (length a + sizeof_size_t + length ?ident + sizeof_size_t) ?C
              = Inl (write_past_end (length a + 8 + length ?ident + 8) 8)"
            using c3 write_bytes_no_room [of "drop (16 + length ?ident) b" ?C "a @ ?L @ ?ident @ ?R"]
            by (simp add: sizeof_size_t_def add.assoc)
          have "serialize_inputs (a @ b) (length a) (inp # inps)
              = Inl (write_past_end (length a + 8 + length ?ident + 8) 8)"
            by (simp only: serialize_inputs.simps Let_def w1 then_do_Inr w2 w3 f then_do_Inl)
          moreover have "length (a @ b) < length a + 8 + length ?ident + 8 + 8" using True by simp
          ultimately show ?thesis by blast
        next
          case c4: False
          then have w4: "write_bytes ((a @ ?L @ ?ident @ ?R) @ drop (16 + length ?ident) b)
                (length a + sizeof_size_t + length ?ident + sizeof_size_t) ?C
              = Inr ((a @ wire_input inp) @ drop (24 + length ?ident) b)"
            using write_bytes_append [of ?C "drop (16 + length ?ident) b" "a @ ?L @ ?ident @ ?R"]
            by (simp add: sizeof_size_t_def wire_input_def add.commute add.left_commute)
          have "length (drop (24 + length ?ident) b) < length ?W" using short c4 by simp
          from Cons.IH [OF this, of "a @ wire_input inp"] obtain p n where
            f: "serialize_inputs ((a @ wire_input inp) @ drop (24 + length ?ident) b)
                  (length (a @ wire_input inp)) inps = Inl (write_past_end p n)"
            and g: "length ((a @ wire_input inp) @ drop (24 + length ?ident) b) < p + n"
            by blast
          have pos: "length a + sizeof_size_t + length ?ident + sizeof_size_t + sizeof_size_t
              = length (a @ wire_input inp)"
            by (simp add: length_wire_input sizeof_size_t_def)
          have "serialize_inputs (a @ b) (length a) (inp # inps) = Inl (write_past_end p n)"
            by (simp only: serialize_inputs.simps Let_def w1 then_do_Inr w2 w3 w4 pos f)
          moreover have "length (a @ b) < p + n"
            using g c4 by (simp add: length_wire_input)
          ultimately show ?thesis by blast
        qed
      qed
    qed
  qed
qed


lemma serialize_run_room:
  assumes r: "reserve P (sizeInBytes P t) buffer = Inr b"
    and room: "length (wire_layout t) \<le> length (storage b)"
  shows "serialize_run P t buffer =
    Inr (b\<lparr>storage := wire_layout t @ drop (length (wire_layout t)) (storage b)\<rparr>,
         length (wire_layout t))"
proof -
  let ?st = "storage b"
  let ?code = "mlir_code t"
  let ?H = "size_t_bytes (length ?code) @ size_t_bytes (length (inputs t))"
  let ?W = "concat (map wire_input (inputs t))"
  from room have room': "16 + length ?code + length ?W \<le> length ?st"
    by (simp add: length_wire_layout)
  have w1: "write_bytes ?st 0 ?H = Inr (?H @ drop 16 ?st)"
    using room' write_bytes_append [of ?H ?st "[]"] by simp
  have w2: "write_bytes (?H @ drop 16 ?st) sizeof_Header ?code
      = Inr ((?H @ ?code) @ drop (16 + length ?code) ?st)"
    using room' write_bytes_append [of ?code "drop 16 ?st" ?H]
    by (simp add: sizeof_Header_def add.commute)
  have "length ?W \<le> length (drop (16 + length ?code) ?st)" using room' by simp
  from serialize_inputs_room [OF this, of "?H @ ?code"]
  have w3: "serialize_inputs ((?H @ ?code) @ drop (16 + length ?code) ?st)
        (sizeof_Header + length ?code) (inputs t)
      = Inr (wire_layout t @ drop (length (wire_layout t)) ?st, length (wire_layout t))"
    by (simp add: sizeof_Header_def wire_layout_def add.commute add.left_commute)
  show ?thesis
    by (simp only: serialize_run_def r then_do_Inr w1 w2 w3 prod.case)
qed

lemma serialize_run_no_room:
  assumes r: "reserve P (sizeInBytes P t) buffer = Inr b"
    and short: "length (storage b) < length (wire_layout t)"
  shows "\<exists>p n. serialize_run P t buffer = Inl (write_past_end p n) \<and> length (storage b) < p + n"
proof -
  let ?st = "storage b"
  let ?code = "mlir_code t"
  let ?H = "size_t_bytes (length ?code) @ size_t_bytes (length (inputs t))"
  let ?W = "concat (map wire_input (inputs t))"
  from short have short': "length ?st < 16 + length ?code + length ?W"
    by (simp add: length_wire_layout)
  show ?thesis
  proof (cases "length ?st < 16")
    case True
    then have f: "write_bytes ?st 0 ?H = Inl (write_past_end 0 16)"
      using write_bytes_no_room [of ?st ?H "[]"] by simp
    have "serialize_run P t buffer = Inl (write_past_end 0 16)"
      by (simp only: serialize_run_def r then_do_Inr f then_do_Inl)
    with True show ?thesis by auto
  next
    case c1: False
    then have w1: "write_bytes ?st 0 ?H = Inr (?H @ drop 16 ?st)"
      using write_bytes_append [of ?H ?st "[]"] by simp
    show ?thesis
    proof (cases "length ?st < 16 + length ?code")
      case True
      then have f: "write_bytes (?H @ drop 16 ?st) sizeof_Header ?code
          = Inl (write_past_end 16 (length ?code))"
        using c1 write_bytes_no_room [of "drop 16 ?st" ?code ?H]
        by (simp add: sizeof_Header_def)
      have "serialize_run P t buffer = Inl (write_past_end 16 (length ?code))"
        by (simp only: serialize_run_def r then_do_Inr w1 f then_do_Inl)
      with True show ?thesis by auto
    next
      case c2: False
      then have w2: "write_bytes (?H @ drop 16 ?st) sizeof_Header ?code
          = Inr ((?H @ ?code) @ drop (16 + length ?code) ?st)"
        using write_bytes_append [of ?code "drop 16 ?st" ?H]
        by (simp add: sizeof_Header_def add.commute)
      have "length (drop (16 + length ?code) ?st) < length ?W" using short' c2 by simp
      from serialize_inputs_no_room [OF this, of "?H @ ?code"] obtain p n where
        f: "serialize_inputs ((?H @ ?code) @ drop (16 + length ?code) ?st)
              (length (?H @ ?code)) (inputs t) = Inl (write_past_end p n)"
        and g: "length ((?H @ ?code) @ drop (16 + length ?code) ?st) < p + n"
        by blast
      have pos: "sizeof_Header + length ?code = length (?H @ ?code)"
        by (simp add: sizeof_Header_def)
      have "serialize_run P t buffer = Inl (write_past_end p n)"
        by (simp only: serialize_run_def r then_do_Inr w1 w2 pos f then_do_Inl)
      moreover have "length ?st < p + n" using g c2 by simp
      ultimately show ?thesis by blast
    qed
  qed
qed

lemma serialize_Inr_storage:
  assumes "serialize P t buffer = Inr b'"
  shows "\<exists>post. storage b' = wire_layout t @ post"
proof -
  from assms obtain b where r: "reserve P (sizeInBytes P t) buffer = Inr b"
    by (auto simp: serialize_def serialize_run_def then_do_Inr_iff)
  show ?thesis
  proof (cases "length (wire_layout t) \<le> length (storage b)")
    case True
    from serialize_run_room [OF r True] assms
    have "b' = b\<lparr>storage := wire_layout t @ drop (length (wire_layout t)) (storage b)\<rparr>"
      by (simp add: serialize_def)
    then show ?thesis by simp
  next
    case False
    then have "length (storage b) < length (wire_layout t)" by simp
    from serialize_run_no_room [OF r this] assms show ?thesis
      by (auto simp: serialize_def)
  qed
qed

text \<open>
  Where \<^verbatim>\<open>serialize\<close> completes, that is where the wire layout fits the reserved storage,
  \<^verbatim>\<open>deserialize\<close> gives the task back.
\<close>

lemma serialize_then_deserialize:
  assumes "platform_ok P" and "task_ok P t" and "serialize P t buffer = Inr b'"
  shows "deserialize P b' = Inr t"
proof -
  from serialize_Inr_storage [OF assms(3)] obtain post where "storage b' = wire_layout t @ post"
    by blast
  with assms(1,2) show ?thesis by (rule deserialize_wire)
qed

lemma serialize_example_round_trip:
  "\<exists>b'. serialize example_platform example_task empty_vector = Inr b'
        \<and> deserialize example_platform b' = Inr example_task"
proof -
  have ok: "platform_ok example_platform" "task_ok example_platform example_task"
    by (simp_all add: platform_ok_def task_ok_def example_platform_def example_task_def)
  have s: "sizeInBytes example_platform example_task = 65"
    by (simp add: sizeInBytes_def example_platform_def example_task_def sizeof_Header_def)
  have r: "reserve example_platform (sizeInBytes example_platform example_task) empty_vector
      = Inr \<lparr>vec_size = 0, storage = map (\<lambda>i. CHR 0x00) [0..<65]\<rparr>"
    by (simp add: s reserve_def) (simp add: example_platform_def empty_vector_def)
  have l: "length (wire_layout example_task) = 43"
    by (simp add: length_wire_layout length_wire_input example_task_def)
  from serialize_run_room [OF r] l obtain b' where
    "serialize example_platform example_task empty_vector = Inr b'"
    by (simp add: serialize_def)
  with serialize_then_deserialize [OF ok] show ?thesis by blast
qed

end
